theory Spec2Isabelle
  imports Main "HOL-Library.Word" "HOL-Library.Multiset"
begin

unbundle bit_operations_syntax

section \<open>Machine data\<close>

type_synonym byte = "8 word"
type_synonym u32 = "32 word"
type_synonym u64 = "64 word"

text \<open>
  The errors \<^verbatim>\<open>profileLoop\<close> and \<^verbatim>\<open>clean\<close> return, one constructor per
  \<^verbatim>\<open>fmt.Errorf\<close> of the source, and the run-time panics of Go that the
  modelled statements can raise.
\<close>

datatype error =
    ReadPidBytes
  | ReadUserStackIDBytes
  | ReadKernelStackIDBytes
  | GetCountValue
  | ReadUserStackTrace
  | ReadKernelStackTrace
  | FailedIterator
  | ResolveKernelSymbols
  | FailedDeleteStackTrace
  | FailedDeleteCount
  | WriteProfile
  | WriteRawFailed
  | PanicIndexOutOfRange

section \<open>The sampler maps\<close>

text \<open>
  A BPF hash map, as \<^verbatim>\<open>libbpfgo\<close> shows it to the agent: the entries in the
  order in which the kernel's \<^verbatim>\<open>bpf_map_get_next_key\<close> walks them. Keys and values
  are byte strings. The model is sequential: the sampler does not write while the
  agent reads or deletes.
\<close>

type_synonym bpf_map = "(byte list \<times> byte list) list"

record bpfMaps =
  counts :: bpf_map
  stackTraces :: bpf_map

text \<open>\<^verbatim>\<open>GetValue\<close> fails (here \<open>None\<close>) when the key is not in the map.\<close>

definition GetValue :: "bpf_map \<Rightarrow> byte list \<Rightarrow> byte list option" where
  "GetValue m k = map_of m k"

text \<open>\<^verbatim>\<open>DeleteKey\<close> fails (here \<open>None\<close>) when the key is not in the map.\<close>

definition DeleteKey :: "bpf_map \<Rightarrow> byte list \<Rightarrow> bpf_map option" where
  "DeleteKey m k =
     (if k \<in> set (map fst m) then Some (filter (\<lambda>kv. fst kv \<noteq> k) m) else None)"

fun key_after :: "'k \<Rightarrow> 'k list \<Rightarrow> 'k option" where
  "key_after k [] = None"
| "key_after k (x # xs) =
     (if x = k then (case xs of [] \<Rightarrow> None | y # ys \<Rightarrow> Some y) else key_after k xs)"

text \<open>
  One step of the iterator: \<^verbatim>\<open>it.Next()\<close> asks the kernel for the key that follows
  the iterator's current key. With no current key, or with a current key that is no
  longer in the map, the kernel answers with the first key; after the last key it
  answers \<^verbatim>\<open>ENOENT\<close> and \<^verbatim>\<open>Next\<close> returns false (here \<open>None\<close>).
\<close>

definition it_Next :: "bpf_map \<Rightarrow> byte list option \<Rightarrow> byte list option" where
  "it_Next m cur =
     (let ks = map fst m in
      case cur of
        None \<Rightarrow> (case ks of [] \<Rightarrow> None | k # ks' \<Rightarrow> Some k)
      | Some c \<Rightarrow>
          if c \<in> set ks then key_after c ks
          else (case ks of [] \<Rightarrow> None | k # ks' \<Rightarrow> Some k))"

subsection \<open>\<^verbatim>\<open>bpfMaps.clean\<close>\<close>

datatype map_op = OpNext "byte list" | OpDelete "byte list"

text \<open>
  The loop \<^verbatim>\<open>for it.Next() { if prev != nil { DeleteKey(prev) }; prev = copy(it.Key()) }\<close>.
  The state is the map, the iterator's current key, \<^verbatim>\<open>prev\<close> and the operations done so
  far. The result says whether a deletion failed, and gives the map, \<^verbatim>\<open>prev\<close> and the
  operations at that point.
\<close>

function clean_loop ::
  "bpf_map \<Rightarrow> byte list option \<Rightarrow> byte list option \<Rightarrow> map_op list
     \<Rightarrow> bool \<times> bpf_map \<times> byte list option \<times> map_op list" where
  "clean_loop m cur prev ops =
     (case it_Next m cur of
        None \<Rightarrow> (False, m, prev, ops)
      | Some k \<Rightarrow>
          (case prev of
             None \<Rightarrow> clean_loop m (Some k) (Some k) (ops @ [OpNext k])
           | Some p \<Rightarrow>
               (case DeleteKey m p of
                  None \<Rightarrow> (True, m, prev, ops @ [OpNext k, OpDelete p])
                | Some m' \<Rightarrow>
                    clean_loop m' (Some k) (Some k) (ops @ [OpNext k, OpDelete p]))))"
  by pat_completeness auto
termination
proof -
  have shorter: "length m' < length m" if del: "DeleteKey m p = Some m'"
    for m m' :: bpf_map and p
  proof -
    from del have in_m: "p \<in> set (map fst m)" and m': "m' = filter (\<lambda>kv. fst kv \<noteq> p) m"
      by (auto simp: DeleteKey_def split: if_splits)
    from in_m obtain kv where "kv \<in> set m" "\<not> fst kv \<noteq> p" by auto
    then show ?thesis unfolding m' by (rule length_filter_less)
  qed
  show ?thesis
    by (relation "measure (\<lambda>(m, cur, prev, ops). 2 * length m + (if prev = None then 1 else 0))")
       (auto dest: shorter)
qed

declare clean_loop.simps [simp del]

text \<open>
  The statements after the loop: a failed deletion has already returned; otherwise
  \<^verbatim>\<open>if prev != nil { DeleteKey(prev) }\<close>.
\<close>

definition clean_last ::
  "bool \<times> bpf_map \<times> byte list option \<times> map_op list \<Rightarrow> bool \<times> bpf_map \<times> map_op list" where
  "clean_last r =
     (case r of
        (failed, m1, prev, ops) \<Rightarrow>
          if failed then (True, m1, ops)
          else (case prev of
                  None \<Rightarrow> (False, m1, ops)
                | Some p \<Rightarrow>
                    (case DeleteKey m1 p of
                       None \<Rightarrow> (True, m1, ops @ [OpDelete p])
                     | Some m2 \<Rightarrow> (False, m2, ops @ [OpDelete p]))))"

text \<open>
  One map's half of \<^verbatim>\<open>clean\<close> (the source writes it out once for each map): a
  fresh iterator, \<^verbatim>\<open>prev = nil\<close>, the loop, the last deletion.
\<close>

definition clean_map :: "bpf_map \<Rightarrow> bool \<times> bpf_map \<times> map_op list" where
  "clean_map m = clean_last (clean_loop m None None [])"

datatype map_name = StackTraces | Counts

text \<open>
  \<^verbatim>\<open>clean\<close>: the stack traces first, then the counts; the first failing deletion
  returns its error and leaves the rest as it is. The result is the error (\<open>None\<close> is
  Go's \<^verbatim>\<open>nil\<close>), the maps afterwards and the operations done on each map.
\<close>

definition clean :: "bpfMaps \<Rightarrow> error option \<times> bpfMaps \<times> (map_name \<times> map_op) list" where
  "clean m =
     (case clean_map (stackTraces m) of
        (failed1, st', ops1) \<Rightarrow>
          if failed1
          then (Some FailedDeleteStackTrace, m\<lparr>stackTraces := st'\<rparr>, map (Pair StackTraces) ops1)
          else (case clean_map (counts m) of
                  (failed2, c', ops2) \<Rightarrow>
                    (if failed2 then Some FailedDeleteCount else None,
                     m\<lparr>stackTraces := st', counts := c'\<rparr>,
                     map (Pair StackTraces) ops1 @ map (Pair Counts) ops2)))"

text \<open>
  The protocol in the specification's words: record the last-seen key, advance, then
  delete the prior key; at the end of the iteration delete the final key.
\<close>

fun behind :: "byte list \<Rightarrow> byte list list \<Rightarrow> map_op list" where
  "behind p [] = [OpDelete p]"
| "behind p (k # ks) = OpNext k # OpDelete p # behind k ks"

fun one_step_behind :: "byte list list \<Rightarrow> map_op list" where
  "one_step_behind [] = []"
| "one_step_behind (k # ks) = OpNext k # behind k ks"

section \<open>Decoding\<close>

text \<open>
  \<^verbatim>\<open>byteorder.GetHostByteOrder()\<close> is not among the sources; the byte order of the
  host is a parameter of the model.
\<close>

datatype byte_order = LittleEndian | BigEndian

fun le_word :: "byte list \<Rightarrow> 'a::len word" where
  "le_word [] = 0"
| "le_word (b # bs) = ucast b OR push_bit 8 (le_word bs)"

text \<open>The first \<open>n\<close> bytes of \<open>b\<close> read as an unsigned integer in the given order.\<close>

definition decode_uint :: "byte_order \<Rightarrow> nat \<Rightarrow> byte list \<Rightarrow> 'a::len word" where
  "decode_uint bo n b =
     (case bo of LittleEndian \<Rightarrow> le_word (take n b) | BigEndian \<Rightarrow> le_word (rev (take n b)))"

text \<open>
  \<^verbatim>\<open>byteOrder.Uint32(b)\<close> and \<^verbatim>\<open>byteOrder.Uint64(b)\<close> of \<^verbatim>\<open>encoding/binary\<close>:
  they panic with an index out of range (here \<open>None\<close>) on a slice that is too short.
\<close>

definition Uint32 :: "byte_order \<Rightarrow> byte list \<Rightarrow> u32 option" where
  "Uint32 bo b = (if length b < 4 then None else Some (decode_uint bo 4 b))"

definition Uint64 :: "byte_order \<Rightarrow> byte list \<Rightarrow> u64 option" where
  "Uint64 bo b = (if length b < 8 then None else Some (decode_uint bo 8 b))"

text \<open>
  The four bytes of a 32-bit integer in the memory of the host: what
  \<^verbatim>\<open>unsafe.Pointer(&userStackID)\<close> hands to \<^verbatim>\<open>GetValue\<close> as the key.
\<close>

definition host_bytes32 :: "byte_order \<Rightarrow> u32 \<Rightarrow> byte list" where
  "host_bytes32 bo w =
     (let le = [ucast w, ucast (drop_bit 8 w), ucast (drop_bit 16 w), ucast (drop_bit 24 w)]
      in case bo of LittleEndian \<Rightarrow> le | BigEndian \<Rightarrow> rev le)"

text \<open>
  \<^verbatim>\<open>io.ReadFull(r, buf)\<close> on a \<^verbatim>\<open>bytes.Buffer\<close> with \<open>n = len(buf)\<close>: an error
  (here \<open>None\<close>) when fewer than \<open>n\<close> bytes are left, else the bytes read and the rest.
\<close>

definition ReadFull :: "nat \<Rightarrow> byte list \<Rightarrow> (byte list \<times> byte list) option" where
  "ReadFull n r = (if length r < n then None else Some (take n r, drop n r))"

text \<open>
  \<^verbatim>\<open>binary.Read(bytes.NewBuffer(b), byteOrder, s)\<close> for a slice \<open>s\<close> of \<open>n\<close>
  \<^verbatim>\<open>uint64\<close>: it reads \<open>8 * n\<close> bytes, fails (here \<open>None\<close>) when the buffer is
  shorter, and decodes them eight at a time.
\<close>

definition binary_Read :: "byte_order \<Rightarrow> nat \<Rightarrow> byte list \<Rightarrow> u64 list option" where
  "binary_Read bo n b =
     (if length b < 8 * n then None
      else Some (map (\<lambda>i. decode_uint bo 8 (drop (8 * i) b)) [0..<n]))"

definition stackDepth :: nat where
  "stackDepth = 127"

definition doubleStackDepth :: nat where
  "doubleStackDepth = 254"

section \<open>The profile\<close>

text \<open>
  The objects of \<^verbatim>\<open>github.com/google/pprof/profile\<close> that the loop builds. The Go
  code shares them through pointers. A pointer to a location is its index in
  \<^verbatim>\<open>locations\<close> (locations are only ever appended); a pointer to a function is the
  key under which \<^verbatim>\<open>kernelFunctions\<close> or \<^verbatim>\<open>userFunctions\<close> holds it (each key
  holds one object for the whole cycle); a pointer to a mapping is the kernel
  sentinel, \<^verbatim>\<open>nil\<close>, or a handle of the mapping cache. IDs and indices are natural
  numbers: they are lengths of slices, plus one.
\<close>

datatype func_ref = KernelFn u64 | UserFn "u64 \<times> u64"

datatype mapping_ref = NilMapping | KernelMapping | ProcMapping nat

record Location =
  l_ID :: nat
  l_Address :: u64
  l_Mapping :: mapping_ref
  l_Line :: "func_ref list"

record Function =
  f_ID :: nat
  f_Name :: string

record Mapping =
  m_ID :: nat
  m_Start :: u64
  m_Limit :: u64
  m_Offset :: u64
  m_File :: string
  m_BuildID :: string

record Sample =
  s_Value :: "u64 list"
  s_Location :: "nat list"

record Profile =
  p_SampleType :: "(string \<times> string) list"
  p_TimeNanos :: int
  p_DurationNanos :: int
  p_PeriodType :: "string \<times> string"
  p_Period :: int
  p_Sample :: "Sample list"
  p_Mapping :: "(mapping_ref \<times> Mapping) list"
  p_Location :: "Location list"
  p_Function :: "(func_ref \<times> Function) list"

section \<open>The collaborators\<close>

text \<open>
  The calls the loop makes to the per-process caches, in the order it makes them,
  and its reads of the stack-trace map.
\<close>

datatype call =
    StackTraceGet "byte list"
  | CallCacheForPID u32
  | CallPIDAddrMapping u32 u64
  | CallObjectFileForProcess u32 nat
  | CallPerfLookup u32 u64

text \<open>
  The packages \<^verbatim>\<open>perf\<close>, \<^verbatim>\<open>maps\<close>, \<^verbatim>\<open>objectfile\<close>, \<^verbatim>\<open>ksym\<close> and the
  profile store client are not among the sources. The model takes what they answer
  as parameters:
  \<^item> \<open>CacheForPID pid\<close>: the perf map of the process, \<open>None\<close> for \<^verbatim>\<open>nil\<close>; a perf map
    is its \<^verbatim>\<open>Lookup\<close>, \<open>None\<close> when it returns an error;
  \<^item> \<open>PIDAddrMapping pid addr\<close>: the mapping that covers the address, \<open>None\<close> for
    \<^verbatim>\<open>nil\<close>;
  \<^item> \<open>ObjectFileForProcess pid m\<close>: the object file, \<open>None\<close> for \<^verbatim>\<open>nil\<close>; an object
    file is its \<^verbatim>\<open>ObjAddr\<close>, \<open>None\<close> when it returns an error;
  \<^item> \<open>AllMappings cs\<close>: the mappings the cache hands out after the lookups \<open>cs\<close> of
    this cycle, each with its handle;
  \<^item> \<open>Resolve addrs\<close>: the kernel symbols, \<open>None\<close> when it returns an error; an
    address without a symbol reads as the empty string, as a missing key of a Go map
    does;
  \<^item> \<open>rangeSamples\<close>, \<open>rangeKernelFunctions\<close>, \<open>rangeUserFunctions\<close>: the order in
    which \<^verbatim>\<open>range\<close> walks each Go map (Go leaves it unspecified), as a
    rearrangement of the entries in insertion order;
  \<^item> \<open>profWrite\<close>: \<^verbatim>\<open>prof.Write\<close>, \<open>None\<close> when it returns an error;
  \<^item> \<open>WriteRaw labels raw\<close>: the error of the store's \<^verbatim>\<open>WriteRaw\<close>, \<open>None\<close> for
    \<^verbatim>\<open>nil\<close>.
\<close>

record env =
  byteOrder :: byte_order
  CacheForPID :: "u32 \<Rightarrow> (u64 \<Rightarrow> string option) option"
  PIDAddrMapping :: "u32 \<Rightarrow> u64 \<Rightarrow> nat option"
  ObjectFileForProcess :: "u32 \<Rightarrow> nat \<Rightarrow> (u64 \<Rightarrow> u64 option) option"
  AllMappings :: "(u32 \<times> u64) list \<Rightarrow> (nat \<times> Mapping) list"
  Resolve :: "u64 set \<Rightarrow> (u64 \<Rightarrow> string) option"
  rangeSamples :: "(u64 list \<times> Sample) list \<Rightarrow> (u64 list \<times> Sample) list"
  rangeKernelFunctions :: "(u64 \<times> Function) list \<Rightarrow> (u64 \<times> Function) list"
  rangeUserFunctions :: "((u64 \<times> u64) \<times> Function) list \<Rightarrow> ((u64 \<times> u64) \<times> Function) list"
  profWrite :: "Profile \<Rightarrow> byte list option"
  WriteRaw :: "(string \<times> string) list \<Rightarrow> byte list \<Rightarrow> error option"

section \<open>The drain loop of \<^verbatim>\<open>profileLoop\<close>\<close>

text \<open>
  A Go map that the code ranges over is a list of entries in insertion order;
  \<^verbatim>\<open>m[k] = v\<close> replaces the entry of \<open>k\<close> where it stands, or appends one.
\<close>

fun map_store :: "('k \<times> 'v) list \<Rightarrow> 'k \<Rightarrow> 'v \<Rightarrow> ('k \<times> 'v) list" where
  "map_store [] k v = [(k, v)]"
| "map_store (e # es) k v = (if fst e = k then (k, v) # es else e # map_store es k v)"

text \<open>
  The state of the loop: the cycle-local variables of \<^verbatim>\<open>profileLoop\<close>, the
  \<^verbatim>\<open>missingStacks\<close> counter vector of the profiler (by label value) and the calls
  made so far.
\<close>

record loop_state =
  locations :: "Location list"
  kernelLocations :: "nat list"
  kernelAddresses :: "u64 set"
  locationIndices :: "((u64 \<times> u64) \<times> nat) list"
  userFunctions :: "((u64 \<times> u64) \<times> Function) list"
  samples :: "(u64 list \<times> Sample) list"
  missingStacks :: "string \<Rightarrow> nat"
  calls :: "call list"

text \<open>A \<^verbatim>\<open>for ... range\<close> loop whose body may return an error: it stops there.\<close>

fun for_each :: "('s \<Rightarrow> 'a \<Rightarrow> error option \<times> 's) \<Rightarrow> 's \<Rightarrow> 'a list \<Rightarrow> error option \<times> 's" where
  "for_each body s [] = (None, s)"
| "for_each body s (x # xs) =
     (case body s x of
        (Some e, s') \<Rightarrow> (Some e, s')
      | (None, s') \<Rightarrow> for_each body s' xs)"

text \<open>
  Lines 347 to 399: what the loop learns about one key of the counts map before it
  touches the cycle's state. The count is read before the stacks, so a dropped tuple
  has one too.
\<close>

datatype fetched =
    Abort error
  | Missing string u64
  | Fetched u32 "u64 list" u64

text \<open>Lines 347 to 367: the three fields of the key.\<close>

definition decode_key :: "byte_order \<Rightarrow> byte list \<Rightarrow> error + (u32 \<times> u32 \<times> u32)" where
  "decode_key bo keyBytes =
     (case ReadFull 4 keyBytes of
        None \<Rightarrow> Inl ReadPidBytes
      | Some (pidBytes, r1) \<Rightarrow>
          (case ReadFull 4 r1 of
             None \<Rightarrow> Inl ReadUserStackIDBytes
           | Some (userStackIDBytes, r2) \<Rightarrow>
               (case ReadFull 4 r2 of
                  None \<Rightarrow> Inl ReadKernelStackIDBytes
                | Some (kernelStackIDBytes, r3) \<Rightarrow>
                    Inr (decode_uint bo 4 pidBytes,
                         decode_uint bo 4 userStackIDBytes,
                         decode_uint bo 4 kernelStackIDBytes))))"

text \<open>
  Lines 388 to 399: the kernel half of the combined stack. The stack ID is an
  \<^verbatim>\<open>int32\<close>; \<^verbatim>\<open>kernelStackID >= 0\<close> reads it signed.
\<close>

definition fetch_kernel ::
  "byte_order \<Rightarrow> bpf_map \<Rightarrow> u32 \<Rightarrow> u32 \<Rightarrow> u64 list \<Rightarrow> u64 \<Rightarrow> call list \<times> fetched" where
  "fetch_kernel bo traces pid kernelStackID userStack val =
     (if 0 \<le> sint kernelStackID then
        (let kernelKey = host_bytes32 bo kernelStackID in
         case GetValue traces kernelKey of
           None \<Rightarrow> ([StackTraceGet kernelKey], Missing ''kernel'' val)
         | Some stackBytes \<Rightarrow>
             (case binary_Read bo (doubleStackDepth - stackDepth) stackBytes of
                None \<Rightarrow> ([StackTraceGet kernelKey], Abort ReadKernelStackTrace)
              | Some kernelStack \<Rightarrow>
                  ([StackTraceGet kernelKey], Fetched pid (userStack @ kernelStack) val)))
      else ([], Fetched pid (userStack @ replicate (doubleStackDepth - stackDepth) 0) val))"

text \<open>Lines 375 to 399: the user half, then the kernel half.\<close>

definition fetch_stacks ::
  "byte_order \<Rightarrow> bpf_map \<Rightarrow> u32 \<Rightarrow> u32 \<Rightarrow> u32 \<Rightarrow> u64 \<Rightarrow> call list \<times> fetched" where
  "fetch_stacks bo traces pid userStackID kernelStackID val =
     (let userKey = host_bytes32 bo userStackID in
      case GetValue traces userKey of
        None \<Rightarrow> ([StackTraceGet userKey], Missing ''user'' val)
      | Some stackBytes \<Rightarrow>
          (case binary_Read bo stackDepth stackBytes of
             None \<Rightarrow> ([StackTraceGet userKey], Abort ReadUserStackTrace)
           | Some userStack \<Rightarrow>
               (case fetch_kernel bo traces pid kernelStackID userStack val of
                  (cs, r) \<Rightarrow> (StackTraceGet userKey # cs, r))))"

definition fetch :: "byte_order \<Rightarrow> bpfMaps \<Rightarrow> byte list \<Rightarrow> call list \<times> fetched" where
  "fetch bo maps keyBytes =
     (case decode_key bo keyBytes of
        Inl e \<Rightarrow> ([], Abort e)
      | Inr (pid, userStackID, kernelStackID) \<Rightarrow>
          (case GetValue (counts maps) keyBytes of
             None \<Rightarrow> ([], Abort GetCountValue)
           | Some valueBytes \<Rightarrow>
               (case Uint64 bo valueBytes of
                  None \<Rightarrow> ([], Abort PanicIndexOutOfRange)
                | Some val \<Rightarrow>
                    fetch_stacks bo (stackTraces maps) pid userStackID kernelStackID val)))"

text \<open>
  \<^verbatim>\<open>sampleLocations = append(sampleLocations, locations[locationIndex])\<close>: the index
  expression panics out of range.
\<close>

definition append_location ::
  "loop_state \<times> nat list \<Rightarrow> nat \<Rightarrow> error option \<times> loop_state \<times> nat list" where
  "append_location s locationIndex =
     (case s of
        (st, sampleLocations) \<Rightarrow>
          if locationIndex < length (locations st)
          then (None, st, sampleLocations @ [locationIndex])
          else (Some PanicIndexOutOfRange, st, sampleLocations))"

text \<open>Lines 412 to 431: one address of the kernel half.\<close>

definition kernel_addr ::
  "loop_state \<times> nat list \<Rightarrow> u64 \<Rightarrow> error option \<times> loop_state \<times> nat list" where
  "kernel_addr s addr =
     (case s of
        (st, sampleLocations) \<Rightarrow>
          if addr \<noteq> 0 then
            (let key = (0, addr) in
             case map_of (locationIndices st) key of
               Some locationIndex \<Rightarrow> append_location (st, sampleLocations) locationIndex
             | None \<Rightarrow>
                 (let locationIndex = length (locations st);
                      l = \<lparr>l_ID = locationIndex + 1, l_Address = addr,
                           l_Mapping = KernelMapping, l_Line = []\<rparr>;
                      st' = st\<lparr>locations := locations st @ [l],
                               kernelLocations := kernelLocations st @ [locationIndex],
                               kernelAddresses := insert addr (kernelAddresses st),
                               locationIndices := map_store (locationIndices st) key locationIndex\<rparr>
                  in append_location (st', sampleLocations) locationIndex))
          else (None, st, sampleLocations))"

text \<open>
  Lines 476 to 489: the JIT symbol of a new user location. The result is the
  location's lines, the \<^verbatim>\<open>userFunctions\<close> map and the lookups made.
\<close>

definition jit_line ::
  "u32 \<Rightarrow> (u64 \<Rightarrow> string option) option \<Rightarrow> ((u64 \<times> u64) \<times> Function) list \<Rightarrow> u64 \<times> u64 \<Rightarrow> u64
     \<Rightarrow> func_ref list \<times> ((u64 \<times> u64) \<times> Function) list \<times> call list" where
  "jit_line pid perfMap ufs key addr =
     (case perfMap of
        None \<Rightarrow> ([], ufs, [])
      | Some lookup \<Rightarrow>
          (case map_of ufs key of
             Some jitFunction \<Rightarrow> ([UserFn key], ufs, [])
           | None \<Rightarrow>
               (case lookup addr of
                  Some symbol \<Rightarrow>
                    ([UserFn key], map_store ufs key \<lparr>f_ID = 0, f_Name = symbol\<rparr>,
                     [CallPerfLookup pid addr])
                | None \<Rightarrow> ([], ufs, [CallPerfLookup pid addr]))))"

text \<open>Lines 440 to 496: one address of the user half.\<close>

definition user_addr ::
  "env \<Rightarrow> u32 \<Rightarrow> (u64 \<Rightarrow> string option) option \<Rightarrow> loop_state \<times> nat list \<Rightarrow> u64
     \<Rightarrow> error option \<times> loop_state \<times> nat list" where
  "user_addr e pid perfMap s addr =
     (case s of
        (st, sampleLocations) \<Rightarrow>
          if addr \<noteq> 0 then
            (let key = (ucast pid, addr) in
             case map_of (locationIndices st) key of
               Some locationIndex \<Rightarrow> append_location (st, sampleLocations) locationIndex
             | None \<Rightarrow>
                 (let locationIndex = length (locations st);
                      m = PIDAddrMapping e pid addr;
                      objFile = (case m of None \<Rightarrow> None
                                 | Some h \<Rightarrow> ObjectFileForProcess e pid h);
                      normalizedAddr =
                        (case objFile of
                           None \<Rightarrow> addr
                         | Some ObjAddr \<Rightarrow> (case ObjAddr addr of None \<Rightarrow> addr | Some nAddr \<Rightarrow> nAddr));
                      jit = jit_line pid perfMap (userFunctions st) key addr;
                      l = \<lparr>l_ID = locationIndex + 1, l_Address = normalizedAddr,
                           l_Mapping = (case m of None \<Rightarrow> NilMapping | Some h \<Rightarrow> ProcMapping h),
                           l_Line = fst jit\<rparr>;
                      st' = st\<lparr>locations := locations st @ [l],
                               locationIndices := map_store (locationIndices st) key locationIndex,
                               userFunctions := fst (snd jit),
                               calls := calls st @ [CallPIDAddrMapping pid addr]
                                 @ (case m of None \<Rightarrow> [] | Some h \<Rightarrow> [CallObjectFileForProcess pid h])
                                 @ snd (snd jit)\<rparr>
                  in append_location (st', sampleLocations) locationIndex))
          else (None, st, sampleLocations))"

text \<open>
  Lines 401 to 502: the tuple's count goes to the sample of its combined stack. A
  stack seen before only adds to that sample's \<^verbatim>\<open>Value[0]\<close>; a new one gets its
  locations, the kernel half first, and a sample of its own. \<^verbatim>\<open>int64(value)\<close>
  keeps the 64 bits, and \<^verbatim>\<open>+=\<close> on \<^verbatim>\<open>int64\<close> wraps around.
\<close>

definition aggregate :: "env \<Rightarrow> loop_state \<Rightarrow> u32 \<Rightarrow> u64 list \<Rightarrow> u64 \<Rightarrow> error option \<times> loop_state" where
  "aggregate e st pid stack val =
     (case map_of (samples st) stack of
        Some sample \<Rightarrow>
          (case s_Value sample of
             [] \<Rightarrow> (Some PanicIndexOutOfRange, st)
           | v0 # vs \<Rightarrow>
               (None, st\<lparr>samples :=
                  map_store (samples st) stack (sample\<lparr>s_Value := (v0 + val) # vs\<rparr>)\<rparr>))
      | None \<Rightarrow>
          (case for_each kernel_addr (st, []) (drop stackDepth stack) of
             (Some err, st1, sl1) \<Rightarrow> (Some err, st1)
           | (None, st1, sl1) \<Rightarrow>
               (let perfMap = CacheForPID e pid;
                    st2 = st1\<lparr>calls := calls st1 @ [CallCacheForPID pid]\<rparr>
                in case for_each (user_addr e pid perfMap) (st2, sl1) (take stackDepth stack) of
                     (Some err, st3, sl3) \<Rightarrow> (Some err, st3)
                   | (None, st3, sampleLocations) \<Rightarrow>
                       (None, st3\<lparr>samples :=
                          map_store (samples st3) stack
                            \<lparr>s_Value = [val], s_Location = sampleLocations\<rparr>\<rparr>))))"

text \<open>The body of the loop over the counts map, lines 344 to 503.\<close>

definition step :: "env \<Rightarrow> bpfMaps \<Rightarrow> loop_state \<Rightarrow> byte list \<Rightarrow> error option \<times> loop_state" where
  "step e maps st keyBytes =
     (case fetch (byteOrder e) maps keyBytes of
        (cs, r) \<Rightarrow>
          (let st' = st\<lparr>calls := calls st @ cs\<rparr> in
           case r of
             Abort err \<Rightarrow> (Some err, st')
           | Missing ty val \<Rightarrow>
               (None, st'\<lparr>missingStacks := (missingStacks st')(ty := missingStacks st' ty + 1)\<rparr>)
           | Fetched pid stack val \<Rightarrow> aggregate e st' pid stack val))"

text \<open>
  The iterator over the counts map: nothing deletes or inserts while the loop runs,
  so \<^verbatim>\<open>it.Next()\<close> yields every key once, in the order of the map, and \<^verbatim>\<open>it.Err()\<close>
  is \<^verbatim>\<open>nil\<close> at the end.
\<close>

definition drained :: "bpfMaps \<Rightarrow> byte list list" where
  "drained maps = map fst (counts maps)"

definition init_state :: "(string \<Rightarrow> nat) \<Rightarrow> loop_state" where
  "init_state ms =
     \<lparr>locations = [], kernelLocations = [], kernelAddresses = {}, locationIndices = [],
      userFunctions = [], samples = [], missingStacks = ms, calls = []\<rparr>"

definition drain :: "env \<Rightarrow> bpfMaps \<Rightarrow> loop_state \<Rightarrow> error option \<times> loop_state" where
  "drain e maps st = for_each (step e maps) st (drained maps)"

section \<open>Building the profile\<close>

text \<open>
  Lines 535 to 550: the function of one kernel location. The location is reached
  through its pointer, so the line shows in \<^verbatim>\<open>prof.Location\<close> too. A pointer in
  \<^verbatim>\<open>kernelLocations\<close> always points into \<^verbatim>\<open>locations\<close>; the model leaves an
  index outside of it alone.
\<close>

definition kernel_line ::
  "(u64 \<Rightarrow> string) \<Rightarrow> Location list \<times> (u64 \<times> Function) list \<Rightarrow> nat
     \<Rightarrow> Location list \<times> (u64 \<times> Function) list" where
  "kernel_line kernelSymbols s i =
     (case s of
        (locs, kernelFunctions) \<Rightarrow>
          if i < length locs then
            (let l = locs ! i;
                 name = kernelSymbols (l_Address l);
                 kernelFunctions' =
                   (case map_of kernelFunctions (l_Address l) of
                      Some kernelFunction \<Rightarrow> kernelFunctions
                    | None \<Rightarrow>
                        map_store kernelFunctions (l_Address l)
                          \<lparr>f_ID = 0, f_Name = (if name = [] then ''not found'' else name)\<rparr>)
             in (locs[i := l\<lparr>l_Line := [KernelFn (l_Address l)]\<rparr>], kernelFunctions'))
          else (locs, kernelFunctions))"

text \<open>\<^verbatim>\<open>f.ID = uint64(len(prof.Function)) + 1; prof.Function = append(prof.Function, f)\<close>.\<close>

definition add_function ::
  "(func_ref \<times> Function) list \<Rightarrow> func_ref \<times> Function \<Rightarrow> (func_ref \<times> Function) list" where
  "add_function fs rf = fs @ [(fst rf, (snd rf)\<lparr>f_ID := length fs + 1\<rparr>)]"

fun mapping_calls :: "call list \<Rightarrow> (u32 \<times> u64) list" where
  "mapping_calls [] = []"
| "mapping_calls (CallPIDAddrMapping pid addr # cs) = (pid, addr) # mapping_calls cs"
| "mapping_calls (c # cs) = mapping_calls cs"

definition kernelMapping :: "nat \<Rightarrow> Mapping" where
  "kernelMapping i =
     \<lparr>m_ID = i, m_Start = 0, m_Limit = 0, m_Offset = 0,
      m_File = ''[kernel.kallsyms]'', m_BuildID = []\<rparr>"

text \<open>
  Lines 508 to 562, without the goroutine that uploads debug information (it does
  not touch the profile). \<open>None\<close> is the error of \<^verbatim>\<open>ksymCache.Resolve\<close>.
\<close>

definition build_profile :: "env \<Rightarrow> int \<Rightarrow> int \<Rightarrow> loop_state \<Rightarrow> Profile option" where
  "build_profile e captureTime duration st =
     (let sampleList = map snd (rangeSamples e (samples st));
          mappings = map (\<lambda>hm. (ProcMapping (fst hm), snd hm))
                       (AllMappings e (mapping_calls (calls st)))
      in case Resolve e (kernelAddresses st) of
           None \<Rightarrow> None
         | Some kernelSymbols \<Rightarrow>
             (case foldl (kernel_line kernelSymbols) (locations st, []) (kernelLocations st) of
                (locs, kernelFunctions) \<Rightarrow>
                  (let fs1 = foldl add_function []
                               (map (\<lambda>af. (KernelFn (fst af), snd af))
                                  (rangeKernelFunctions e kernelFunctions));
                       mappings' = mappings @ [(KernelMapping, kernelMapping (length mappings + 1))];
                       fs2 = foldl add_function fs1
                               (map (\<lambda>kf. (UserFn (fst kf), snd kf))
                                  (rangeUserFunctions e (userFunctions st)))
                   in Some \<lparr>p_SampleType = [(''samples'', ''count'')],
                            p_TimeNanos = captureTime,
                            p_DurationNanos = duration,
                            p_PeriodType = (''cpu'', ''nanoseconds''),
                            p_Period = 10000000,
                            p_Sample = sampleList,
                            p_Mapping = mappings',
                            p_Location = locs,
                            p_Function = fs2\<rparr>)))"

section \<open>The profiler\<close>

record CgroupProfiler =
  cg_bpfMaps :: bpfMaps
  cg_missingStacks :: "string \<Rightarrow> nat"
  cg_lastError :: "error option"
  cg_lastProfileTakenAt :: int
  cg_target :: "(string \<times> string) list"
  cg_profilingDuration :: int

text \<open>\<^verbatim>\<open>Labels\<close>: the name of the profile, and the target's labels that do not start with two underscores.\<close>

definition Labels :: "CgroupProfiler \<Rightarrow> (string \<times> string) list" where
  "Labels p =
     foldl (\<lambda>labels nv. if take 2 (fst nv) \<noteq> ''__'' then map_store labels (fst nv) (snd nv) else labels)
       [(''__name__'', ''parca_agent_cpu'')] (cg_target p)"

definition sendProfile :: "env \<Rightarrow> CgroupProfiler \<Rightarrow> Profile \<Rightarrow> error option" where
  "sendProfile e p prof =
     (case profWrite e prof of
        None \<Rightarrow> Some WriteProfile
      | Some raw \<Rightarrow> WriteRaw e (Labels p) raw)"

text \<open>
  What one call of \<^verbatim>\<open>profileLoop\<close> does: the error it returns, the profiler
  afterwards, the profile handed to \<^verbatim>\<open>sendProfile\<close>, the two errors it only logs,
  and the operations of \<^verbatim>\<open>clean\<close> on the maps.
\<close>

record cycle =
  c_err :: "error option"
  c_profiler :: CgroupProfiler
  c_profile :: "Profile option"
  c_sendErr :: "error option"
  c_cleanErr :: "error option"
  c_ops :: "(map_name \<times> map_op) list"

definition profileLoop :: "env \<Rightarrow> CgroupProfiler \<Rightarrow> int \<Rightarrow> cycle" where
  "profileLoop e p captureTime =
     (case drain e (cg_bpfMaps p) (init_state (cg_missingStacks p)) of
        (Some err, st) \<Rightarrow>
          \<lparr>c_err = Some err, c_profiler = p\<lparr>cg_missingStacks := missingStacks st\<rparr>,
           c_profile = None, c_sendErr = None, c_cleanErr = None, c_ops = []\<rparr>
      | (None, st) \<Rightarrow>
          (case build_profile e captureTime (cg_profilingDuration p) st of
             None \<Rightarrow>
               \<lparr>c_err = Some ResolveKernelSymbols,
                c_profiler = p\<lparr>cg_missingStacks := missingStacks st\<rparr>,
                c_profile = None, c_sendErr = None, c_cleanErr = None, c_ops = []\<rparr>
           | Some prof \<Rightarrow>
               (let sendErr = sendProfile e p prof in
                case clean (cg_bpfMaps p) of
                  (cleanErr, maps', ops) \<Rightarrow>
                    \<lparr>c_err = None,
                     c_profiler = p\<lparr>cg_missingStacks := missingStacks st, cg_bpfMaps := maps'\<rparr>,
                     c_profile = Some prof, c_sendErr = sendErr, c_cleanErr = cleanErr,
                     c_ops = ops\<rparr>)))"

definition loopReport :: "CgroupProfiler \<Rightarrow> int \<Rightarrow> error option \<Rightarrow> CgroupProfiler" where
  "loopReport p lastProfileTakenAt lastError =
     p\<lparr>cg_lastProfileTakenAt := lastProfileTakenAt, cg_lastError := lastError\<rparr>"

text \<open>
  One tick of the loop of \<^verbatim>\<open>Run\<close>, lines 298 to 304. An error that \<^verbatim>\<open>profileLoop\<close>
  returns goes to \<^verbatim>\<open>loopReport\<close>. A panic is not returned: it unwinds \<^verbatim>\<open>Run\<close>, so
  \<^verbatim>\<open>loopReport\<close> is not reached and nothing is recorded.
\<close>

definition is_panic :: "error \<Rightarrow> bool" where
  "is_panic err \<longleftrightarrow> err = PanicIndexOutOfRange"

datatype ticked = Unwound error | Reported CgroupProfiler

definition tick :: "env \<Rightarrow> CgroupProfiler \<Rightarrow> int \<Rightarrow> ticked" where
  "tick e p captureTime =
     (let c = profileLoop e p captureTime
      in case c_err c of
           None \<Rightarrow> Reported (loopReport (c_profiler c) captureTime None)
         | Some err \<Rightarrow>
             if is_panic err then Unwound err
             else Reported (loopReport (c_profiler c) captureTime (Some err)))"

section \<open>\<^verbatim>\<open>ElfBuildID\<close>\<close>

text \<open>
  \<^verbatim>\<open>hex.EncodeToString\<close> of \<^verbatim>\<open>encoding/hex\<close>: two characters of the table for each
  byte, the high four bits first.
\<close>

definition hextable :: string where
  "hextable = ''0123456789abcdef''"

definition EncodeToString :: "byte list \<Rightarrow> string" where
  "EncodeToString src =
     concat (map (\<lambda>v. [hextable ! unat (drop_bit 4 v), hextable ! unat (v AND 0x0f)]) src)"

text \<open>
  Lowercase hexadecimal in the specification's sense: each byte as its two base-16
  digits, the digits ten to fifteen written \<open>a\<close> to \<open>f\<close>.
\<close>

definition hex_digit :: "nat \<Rightarrow> char" where
  "hex_digit n = (if n < 10 then char_of (48 + n) else char_of (87 + n))"

definition lower_hex :: "byte list \<Rightarrow> string" where
  "lower_hex bs = concat (map (\<lambda>b. [hex_digit (unat b div 16), hex_digit (unat b mod 16)]) bs)"

text \<open>
  \<^verbatim>\<open>os.Open\<close>, \<^verbatim>\<open>elfexec.GetBuildID\<close>, \<^verbatim>\<open>elf.NewFile\<close> and \<^verbatim>\<open>crypto/sha1\<close> are
  not among the sources. An opened file is what the two parsers answer on it:
  \<^item> \<open>ef_GetBuildID\<close>: \<open>None\<close> for an error, \<open>Some None\<close> for \<^verbatim>\<open>(nil, nil)\<close> (no GNU
    build-ID note), \<open>Some (Some b)\<close> for the descriptor \<open>b\<close> of the note;
  \<^item> \<open>ef_NewFile\<close>: \<open>None\<close> for an error, else the file's \<^verbatim>\<open>Section\<close>: for a
    name, \<open>None\<close> when there is no such section (\<^verbatim>\<open>nil\<close>), \<open>Some None\<close> when reading
    it fails, \<open>Some (Some bs)\<close> for its bytes.
\<close>

record elf_file =
  ef_GetBuildID :: "byte list option option"
  ef_NewFile :: "(string \<Rightarrow> byte list option option) option"

datatype elf_error = OpenFailed | GetBuildIDFailed | NewFileFailed | CopyFailed

text \<open>What a call does: it returns a string, returns an error, or panics on a nil pointer.\<close>

datatype returned = Returned string | Failed elf_error | PanicNilDereference

definition ElfBuildID ::
  "(string \<Rightarrow> elf_file option) \<Rightarrow> (byte list \<Rightarrow> byte list) \<Rightarrow> string \<Rightarrow> returned" where
  "ElfBuildID os_Open sha1 file =
     (case os_Open file of
        None \<Rightarrow> Failed OpenFailed
      | Some f \<Rightarrow>
          (case ef_GetBuildID f of
             None \<Rightarrow> Failed GetBuildIDFailed
           | Some (Some b) \<Rightarrow> Returned (EncodeToString b)
           | Some None \<Rightarrow>
               (case ef_NewFile f of
                  None \<Rightarrow> Failed NewFileFailed
                | Some Section \<Rightarrow>
                    (case Section ''.text'' of
                       None \<Rightarrow> PanicNilDereference
                     | Some None \<Rightarrow> Failed CopyFailed
                     | Some (Some bs) \<Rightarrow> Returned (EncodeToString (sha1 bs))))))"

section \<open>What the claims measure\<close>

text \<open>\<^verbatim>\<open>sample.Value[0]\<close>; every sample of the loop has exactly one value.\<close>

definition value0 :: "Sample \<Rightarrow> u64" where
  "value0 s = (case s_Value s of [] \<Rightarrow> 0 | v # vs \<Rightarrow> v)"

text \<open>The count the loop reads for a key of the counts map (lines 369 to 373).\<close>

definition tuple_count :: "byte_order \<Rightarrow> bpfMaps \<Rightarrow> byte list \<Rightarrow> u64" where
  "tuple_count bo maps k =
     (case GetValue (counts maps) k of
        None \<Rightarrow> 0
      | Some valueBytes \<Rightarrow> (case Uint64 bo valueBytes of None \<Rightarrow> 0 | Some val \<Rightarrow> val))"

text \<open>Whether the loop drops the tuple of a key for a missing stack of the given type.\<close>

definition is_dropped :: "byte_order \<Rightarrow> bpfMaps \<Rightarrow> string \<Rightarrow> byte list \<Rightarrow> bool" where
  "is_dropped bo maps ty k =
     (case snd (fetch bo maps k) of Missing ty' val \<Rightarrow> ty' = ty | Abort err \<Rightarrow> False
      | Fetched pid stack val \<Rightarrow> False)"

text \<open>The count of a tuple if the loop drops it for a missing stack of the given type, else zero.\<close>

definition dropped_count :: "byte_order \<Rightarrow> bpfMaps \<Rightarrow> string \<Rightarrow> byte list \<Rightarrow> u64" where
  "dropped_count bo maps ty k = (if is_dropped bo maps ty k then tuple_count bo maps k else 0)"

text \<open>The sum of \<^verbatim>\<open>Value[0]\<close> over the samples map, in 64-bit arithmetic.\<close>

definition samples_total :: "(u64 list \<times> Sample) list \<Rightarrow> u64" where
  "samples_total xs = sum_list (map (\<lambda>ks. value0 (snd ks)) xs)"

text \<open>The sum of \<^verbatim>\<open>Value[0]\<close> over the samples map, each read as an unsigned number.\<close>

definition samples_weight :: "(u64 list \<times> Sample) list \<Rightarrow> nat" where
  "samples_weight xs = sum_list (map (\<lambda>ks. unat (value0 (snd ks))) xs)"

text \<open>The samples of the profile that a cycle hands to \<^verbatim>\<open>sendProfile\<close>.\<close>

definition cycle_samples :: "cycle \<Rightarrow> Sample list" where
  "cycle_samples c = (case c_profile c of None \<Rightarrow> [] | Some prof \<Rightarrow> p_Sample prof)"




text \<open>The invariant of the locations: location \<open>i\<close> has the ID \<open>i + 1\<close>.\<close>

definition ids_ok :: "loop_state \<Rightarrow> bool" where
  "ids_ok st \<longleftrightarrow> map l_ID (locations st) = map Suc [0..<length (locations st)]"

text \<open>The pid in a key of the counts map, when the key decodes.\<close>

definition tuple_pid :: "byte_order \<Rightarrow> byte list \<Rightarrow> u32 option" where
  "tuple_pid bo keyBytes =
     (case decode_key bo keyBytes of
        Inl err \<Rightarrow> None
      | Inr (pid, userStackID, kernelStackID) \<Rightarrow> Some pid)"

text \<open>
  A list of location pointers without a kernel location: every pointer is into
  \<^verbatim>\<open>locations\<close>, to a location whose mapping is not the kernel's and that is not
  in \<^verbatim>\<open>kernelLocations\<close>.
\<close>

definition kernel_free :: "loop_state \<Rightarrow> nat list \<Rightarrow> bool" where
  "kernel_free st sl =
     list_all (\<lambda>i. i < length (locations st) \<and> l_Mapping (locations st ! i) \<noteq> KernelMapping
                  \<and> i \<notin> set (kernelLocations st)) sl"

text \<open>
  The invariant of the location tables when no tuple has the pid 0, which the code
  uses as the key of the kernel: an index under a key with another pid points to a
  location that is not the kernel's, \<^verbatim>\<open>kernelLocations\<close> points to locations of the
  kernel mapping, and a sample whose combined stack has a zero kernel half has no
  kernel location.
\<close>

definition locations_ok :: "loop_state \<Rightarrow> bool" where
  "locations_ok st \<longleftrightarrow>
     (\<forall>ki \<in> set (locationIndices st).
        snd ki < length (locations st)
        \<and> (fst (fst ki) \<noteq> 0 \<longrightarrow> l_Mapping (locations st ! snd ki) \<noteq> KernelMapping))
     \<and> (\<forall>i \<in> set (kernelLocations st).
          i < length (locations st) \<and> l_Mapping (locations st ! i) = KernelMapping)
     \<and> (\<forall>ss \<in> set (samples st).
          drop stackDepth (fst ss) = replicate stackDepth 0 \<longrightarrow> kernel_free st (s_Location (snd ss)))"

section \<open>An example cycle\<close>

text \<open>
  A little-endian host with two processes. Process 5 has a mapping and an object
  file that moves addresses down by \<open>0x1000\<close>; process 7 has neither, but a perf map
  with one symbol. One kernel address has a symbol.
\<close>

definition example_env :: env where
  "example_env =
     \<lparr>byteOrder = LittleEndian,
      CacheForPID =
        (\<lambda>pid. if pid = 7 then Some (\<lambda>a. if a = 0x1040 then Some ''jit::hot'' else None)
               else None),
      PIDAddrMapping = (\<lambda>pid addr. if pid = 5 then Some 1 else None),
      ObjectFileForProcess = (\<lambda>pid h. if pid = 5 then Some (\<lambda>a. Some (a - 0x1000)) else None),
      AllMappings =
        (\<lambda>cs. if cs = [] then []
              else [(1, \<lparr>m_ID = 1, m_Start = 0x1000, m_Limit = 0x2000, m_Offset = 0,
                          m_File = ''/bin/app'', m_BuildID = ''ab''\<rparr>)]),
      Resolve =
        (\<lambda>addrs. Some (\<lambda>a. if a = 0xffffffff81000000 then ''do_syscall_64'' else [])),
      rangeSamples = rev,
      rangeKernelFunctions = (\<lambda>xs. xs),
      rangeUserFunctions = (\<lambda>xs. xs),
      profWrite = (\<lambda>p. Some []),
      WriteRaw = (\<lambda>ls raw. Some WriteRawFailed)\<rparr>"

text \<open>
  Five tuples \<open>(pid, user_sid, kernel_sid)\<close>: \<open>(5, 42, -1)\<close> with count 3,
  \<open>(5, 43, -1)\<close> with count 2, \<open>(7, 42, -1)\<close> with count 4, \<open>(5, 42, 9)\<close> with count 1
  and \<open>(5, 42, 10)\<close> with count 6. Stack 42 is the one frame \<open>0x1040\<close>, stack 9 the
  one frame \<open>0xffffffff81000000\<close>; the stacks 43 and 10 are gone.
\<close>

definition key_5_42 :: "byte list" where
  "key_5_42 = [5, 0, 0, 0, 42, 0, 0, 0, 255, 255, 255, 255]"

definition key_5_43 :: "byte list" where
  "key_5_43 = [5, 0, 0, 0, 43, 0, 0, 0, 255, 255, 255, 255]"

definition key_7_42 :: "byte list" where
  "key_7_42 = [7, 0, 0, 0, 42, 0, 0, 0, 255, 255, 255, 255]"

definition key_5_42_9 :: "byte list" where
  "key_5_42_9 = [5, 0, 0, 0, 42, 0, 0, 0, 9, 0, 0, 0]"

definition key_5_42_10 :: "byte list" where
  "key_5_42_10 = [5, 0, 0, 0, 42, 0, 0, 0, 10, 0, 0, 0]"

definition example_maps :: bpfMaps where
  "example_maps =
     \<lparr>counts = [(key_5_42, [3, 0, 0, 0, 0, 0, 0, 0]),
                (key_5_43, [2, 0, 0, 0, 0, 0, 0, 0]),
                (key_7_42, [4, 0, 0, 0, 0, 0, 0, 0]),
                (key_5_42_9, [1, 0, 0, 0, 0, 0, 0, 0]),
                (key_5_42_10, [6, 0, 0, 0, 0, 0, 0, 0])],
      stackTraces =
        [([42, 0, 0, 0], 0x40 # 0x10 # 0 # 0 # 0 # 0 # 0 # 0 # replicate 1008 0),
         ([9, 0, 0, 0], 0 # 0 # 0 # 0x81 # 0xff # 0xff # 0xff # 0xff # replicate 1008 0)]\<rparr>"

definition example_profiler :: CgroupProfiler where
  "example_profiler =
     \<lparr>cg_bpfMaps = example_maps, cg_missingStacks = (\<lambda>ty. 0), cg_lastError = Some FailedIterator,
      cg_lastProfileTakenAt = 0, cg_target = [(''__meta_pod'', ''p''), (''pod'', ''p'')],
      cg_profilingDuration = 10000000000\<rparr>"

text \<open>
  The cycle of the specification's scenario 4: the one tuple \<open>(5, 42, -1)\<close> with
  count 3, and no stack traces.
\<close>

definition scenario4 :: CgroupProfiler where
  "scenario4 =
     \<lparr>cg_bpfMaps = \<lparr>counts = [(key_5_42, [3, 0, 0, 0, 0, 0, 0, 0])], stackTraces = []\<rparr>,
      cg_missingStacks = (\<lambda>ty. 0), cg_lastError = None,
      cg_lastProfileTakenAt = 0, cg_target = [], cg_profilingDuration = 10000000000\<rparr>"

text \<open>
  The state of the loop after the tuple \<open>(5, 42, 9)\<close> alone, in which the kernel
  location is the first, and the state after the tuple \<open>(5, 42, -1)\<close> that follows it.
\<close>

definition kernel_first :: loop_state where
  "kernel_first =
     \<lparr>locations =
        [\<lparr>l_ID = 1, l_Address = 0xffffffff81000000, l_Mapping = KernelMapping, l_Line = []\<rparr>,
         \<lparr>l_ID = 2, l_Address = 0x40, l_Mapping = ProcMapping 1, l_Line = []\<rparr>],
      kernelLocations = [0], kernelAddresses = {0xffffffff81000000},
      locationIndices = [((0, 0xffffffff81000000), 0), ((5, 0x1040), 1)],
      userFunctions = [],
      samples =
        [(0x1040 # replicate 126 0 @ 0xffffffff81000000 # replicate 126 0,
          \<lparr>s_Value = [1], s_Location = [0, 1]\<rparr>)],
      missingStacks = (\<lambda>ty. 0),
      calls = [StackTraceGet [42, 0, 0, 0], StackTraceGet [9, 0, 0, 0], CallCacheForPID 5,
               CallPIDAddrMapping 5 0x1040, CallObjectFileForProcess 5 1]\<rparr>"

definition kernel_first_then_user :: loop_state where
  "kernel_first_then_user =
     kernel_first
       \<lparr>samples := samples kernel_first
          @ [(0x1040 # replicate 126 0 @ replicate 127 0, \<lparr>s_Value = [3], s_Location = [1]\<rparr>)],
        calls := calls kernel_first @ [StackTraceGet [42, 0, 0, 0], CallCacheForPID 5]\<rparr>"



text \<open>The state of the loop after the five tuples, and the profile built from it.\<close>

definition example_state :: "(string \<Rightarrow> nat) \<Rightarrow> loop_state" where
  "example_state ms =
     \<lparr>locations =
        [\<lparr>l_ID = 1, l_Address = 0x40, l_Mapping = ProcMapping 1, l_Line = []\<rparr>,
         \<lparr>l_ID = 2, l_Address = 0xffffffff81000000, l_Mapping = KernelMapping, l_Line = []\<rparr>],
      kernelLocations = [1],
      kernelAddresses = {0xffffffff81000000},
      locationIndices = [((5, 0x1040), 0), ((0, 0xffffffff81000000), 1)],
      userFunctions = [],
      samples =
        [(0x1040 # replicate 126 0 @ replicate 127 0, \<lparr>s_Value = [7], s_Location = [0]\<rparr>),
         (0x1040 # replicate 126 0 @ 0xffffffff81000000 # replicate 126 0,
          \<lparr>s_Value = [1], s_Location = [1, 0]\<rparr>)],
      missingStacks = ms(''user'' := Suc (ms ''user''), ''kernel'' := Suc (ms ''kernel'')),
      calls =
        [StackTraceGet [42, 0, 0, 0], CallCacheForPID 5, CallPIDAddrMapping 5 0x1040,
         CallObjectFileForProcess 5 1, StackTraceGet [43, 0, 0, 0], StackTraceGet [42, 0, 0, 0],
         StackTraceGet [42, 0, 0, 0], StackTraceGet [9, 0, 0, 0], CallCacheForPID 5,
         StackTraceGet [42, 0, 0, 0], StackTraceGet [10, 0, 0, 0]]\<rparr>"

definition example_profile :: "int \<Rightarrow> int \<Rightarrow> Profile" where
  "example_profile t d =
     \<lparr>p_SampleType = [(''samples'', ''count'')],
      p_TimeNanos = t,
      p_DurationNanos = d,
      p_PeriodType = (''cpu'', ''nanoseconds''),
      p_Period = 10000000,
      p_Sample =
        [\<lparr>s_Value = [1], s_Location = [1, 0]\<rparr>,
         \<lparr>s_Value = [7], s_Location = [0]\<rparr>],
      p_Mapping =
        [(ProcMapping 1,
          \<lparr>m_ID = 1, m_Start = 0x1000, m_Limit = 0x2000, m_Offset = 0,
           m_File = ''/bin/app'', m_BuildID = ''ab''\<rparr>),
         (KernelMapping,
          \<lparr>m_ID = 2, m_Start = 0, m_Limit = 0, m_Offset = 0,
           m_File = ''[kernel.kallsyms]'', m_BuildID = []\<rparr>)],
      p_Location =
        [\<lparr>l_ID = 1, l_Address = 0x40, l_Mapping = ProcMapping 1, l_Line = []\<rparr>,
         \<lparr>l_ID = 2, l_Address = 0xffffffff81000000, l_Mapping = KernelMapping,
          l_Line = [KernelFn 0xffffffff81000000]\<rparr>],
      p_Function = [(KernelFn 0xffffffff81000000, \<lparr>f_ID = 1, f_Name = ''do_syscall_64''\<rparr>)]\<rparr>"

section \<open>Properties of \<^verbatim>\<open>clean\<close>\<close>

lemma it_Next_head:
  "it_Next ((k, v) # rest) (Some k) = (case rest of [] \<Rightarrow> None | kv # r \<Rightarrow> Some (fst kv))"
  by (cases rest) (auto simp: it_Next_def)

lemma it_Next_start:
  "it_Next m None = (case m of [] \<Rightarrow> None | kv # r \<Rightarrow> Some (fst kv))"
  by (cases m) (auto simp: it_Next_def)

lemma DeleteKey_head:
  "k \<notin> set (map fst rest) \<Longrightarrow> DeleteKey ((k, v) # rest) k = Some rest"
proof -
  assume "k \<notin> set (map fst rest)"
  then have "filter (\<lambda>kv. fst kv \<noteq> k) rest = rest"
    by (intro filter_True) auto
  then show ?thesis by (simp add: DeleteKey_def)
qed

text \<open>
  With the iterator on the first key of the map and that key remembered in
  \<^verbatim>\<open>prev\<close>, the rest of the loop and the last deletion empty the map, one step behind.
\<close>

lemma clean_loop_behind:
  "distinct (k # map fst rest) \<Longrightarrow>
     clean_last (clean_loop ((k, v) # rest) (Some k) (Some k) ops)
       = (False, [], ops @ behind k (map fst rest))"
proof (induction rest arbitrary: k v ops)
  case Nil
  then show ?case
    by (simp add: clean_loop.simps [of "[(k, v)]"] it_Next_head clean_last_def DeleteKey_head)
next
  case (Cons kv rest)
  obtain k' v' where kv: "kv = (k', v')" by (cases kv)
  from Cons.prems have d: "k \<notin> set (map fst ((k', v') # rest))"
    and d': "distinct (k' # map fst rest)"
    by (auto simp: kv)
  have "clean_loop ((k, v) # kv # rest) (Some k) (Some k) ops
      = clean_loop (kv # rest) (Some k') (Some k') (ops @ [OpNext k', OpDelete k])"
    by (subst clean_loop.simps) (simp add: it_Next_head DeleteKey_head [OF d] kv)
  then show ?case using Cons.IH [OF d', of v' "ops @ [OpNext k', OpDelete k]"]
    by (simp add: kv)
qed

lemma clean_map_distinct:
  "distinct (map fst m) \<Longrightarrow> clean_map m = (False, [], one_step_behind (map fst m))"
proof (cases m)
  case Nil
  then show ?thesis
    by (simp add: clean_map_def clean_loop.simps [of "[]"] it_Next_start clean_last_def)
next
  case (Cons kv rest)
  assume dist: "distinct (map fst m)"
  obtain k v where kv: "kv = (k, v)" by (cases kv)
  have "clean_loop m None None [] = clean_loop m (Some k) (Some k) [OpNext k]"
    by (subst clean_loop.simps) (simp add: it_Next_start Cons kv)
  then show ?thesis
    using clean_loop_behind [of k rest v "[OpNext k]"] dist
    by (simp add: clean_map_def Cons kv)
qed

text \<open>
  Claim C3. On maps whose keys are distinct (a BPF hash map holds each key once),
  \<^verbatim>\<open>clean\<close> returns no error and leaves both maps empty; no deletion fails on the
  way, and the operations on each map are those of the one-step-behind protocol:
  advance to a key, delete the key before it, and delete the last key after the
  iteration has ended. On maps that are already empty it returns no error, the maps
  stay empty and no operation is a deletion (there is no operation at all).
\<close>

theorem clean_deletes_every_entry:
  assumes "distinct (map fst (stackTraces m))" and "distinct (map fst (counts m))"
  shows "clean m =
           (None, m\<lparr>stackTraces := [], counts := []\<rparr>,
            map (Pair StackTraces) (one_step_behind (map fst (stackTraces m)))
              @ map (Pair Counts) (one_step_behind (map fst (counts m))))
         \<and> clean (m\<lparr>stackTraces := [], counts := []\<rparr>)
             = (None, m\<lparr>stackTraces := [], counts := []\<rparr>, [])"
  using assms by (simp add: clean_def clean_map_distinct)

theorem clean_deletes_every_entry_witness:
  "distinct (map fst [([42 :: byte, 0, 0, 0], [1 :: byte]), ([7, 0, 0, 0], [2])])
   \<and> distinct (map fst [([5 :: byte, 0, 0, 0, 42, 0, 0, 0, 255, 255, 255, 255], [3 :: byte, 0, 0, 0, 0, 0, 0, 0])])
   \<and> clean \<lparr>counts = [([5, 0, 0, 0, 42, 0, 0, 0, 255, 255, 255, 255], [3, 0, 0, 0, 0, 0, 0, 0])],
            stackTraces = [([42, 0, 0, 0], [1]), ([7, 0, 0, 0], [2])]\<rparr>
       = (None, \<lparr>counts = [], stackTraces = []\<rparr>,
          [(StackTraces, OpNext [42, 0, 0, 0]),
           (StackTraces, OpNext [7, 0, 0, 0]),
           (StackTraces, OpDelete [42, 0, 0, 0]),
           (StackTraces, OpDelete [7, 0, 0, 0]),
           (Counts, OpNext [5, 0, 0, 0, 42, 0, 0, 0, 255, 255, 255, 255]),
           (Counts, OpDelete [5, 0, 0, 0, 42, 0, 0, 0, 255, 255, 255, 255])])
   \<and> clean \<lparr>counts = [], stackTraces = []\<rparr> = (None, \<lparr>counts = [], stackTraces = []\<rparr>, [])"
  using clean_deletes_every_entry
    [of "\<lparr>counts = [([5, 0, 0, 0, 42, 0, 0, 0, 255, 255, 255, 255], [3, 0, 0, 0, 0, 0, 0, 0])],
          stackTraces = [([42, 0, 0, 0], [1]), ([7, 0, 0, 0], [2])]\<rparr>"]
  by simp

section \<open>Properties of \<^verbatim>\<open>ElfBuildID\<close>\<close>

lemma hextable_digit: "n < 16 \<Longrightarrow> hextable ! n = hex_digit n"
proof -
  assume "n < 16"
  then have "n \<in> {0,1,2,3,4,5,6,7,8,9,10,11,12,13,14,15}" by (simp; arith)
  then show ?thesis
    by (auto simp: hextable_def hex_digit_def char_of_def bit_iff_odd)
qed

lemma high_nibble: "unat (drop_bit 4 (v :: byte)) = unat v div 16"
  by (simp add: drop_bit_eq_div unat_div)

lemma low_nibble: "unat ((v :: byte) AND 0x0f) = unat v mod 16"
proof -
  have "(v AND 0x0f) = take_bit 4 v"
    by (simp add: take_bit_eq_mask mask_eq_exp_minus_1)
  then show ?thesis by (simp add: take_bit_eq_mod unat_mod)
qed

text \<open>The table lookup of \<^verbatim>\<open>encoding/hex\<close> writes lowercase hexadecimal.\<close>

lemma EncodeToString_lower_hex: "EncodeToString bs = lower_hex bs"
proof -
  have "[hextable ! unat (drop_bit 4 v), hextable ! unat (v AND 0x0f)]
      = [hex_digit (unat v div 16), hex_digit (unat v mod 16)]" for v :: byte
  proof -
    have "unat v < 256" using unsigned_less [of v, where ?'a = nat] by simp
    then have "unat v div 16 < 16" by simp
    then show ?thesis
      by (simp add: high_nibble low_nibble hextable_digit)
  qed
  then show ?thesis by (simp add: EncodeToString_def lower_hex_def)
qed

text \<open>
  Claim C7. For a file that opens and in which \<^verbatim>\<open>GetBuildID\<close> finds a GNU build-ID
  note with descriptor \<open>N\<close>, \<^verbatim>\<open>ElfBuildID\<close> returns \<open>N\<close> in lowercase hexadecimal.
  For a file that opens, has no such note, parses as ELF and has a \<^verbatim>\<open>.text\<close> section
  that reads as the bytes \<open>B\<close>, it returns the SHA-1 of \<open>B\<close> in lowercase
  hexadecimal.
\<close>

theorem ElfBuildID_hex:
  "(os_Open file = Some f \<and> ef_GetBuildID f = Some (Some N)
      \<longrightarrow> ElfBuildID os_Open sha1 file = Returned (lower_hex N))
   \<and> (os_Open file = Some f \<and> ef_GetBuildID f = Some None
        \<and> ef_NewFile f = Some Section \<and> Section ''.text'' = Some (Some B)
      \<longrightarrow> ElfBuildID os_Open sha1 file = Returned (lower_hex (sha1 B)))"
  by (simp add: ElfBuildID_def EncodeToString_lower_hex)

theorem ElfBuildID_hex_witness:
  "ElfBuildID
     (\<lambda>path. if path = ''/bin/noted''
        then Some \<lparr>ef_GetBuildID = Some (Some [0xde, 0xad, 0xbe, 0xef, 0x00, 0x1f]), ef_NewFile = None\<rparr>
        else None)
     (\<lambda>bs. map (\<lambda>b. b + 1) bs) ''/bin/noted''
     = Returned ''deadbeef001f''
   \<and> ElfBuildID
     (\<lambda>path. if path = ''/bin/plain''
        then Some \<lparr>ef_GetBuildID = Some None,
                   ef_NewFile = Some (\<lambda>name. if name = ''.text'' then Some (Some [0x0f, 0xa0]) else None)\<rparr>
        else None)
     (\<lambda>bs. map (\<lambda>b. b + 1) bs) ''/bin/plain''
     = Returned ''10a1''"
proof -
  have hex1: "lower_hex [0xde, 0xad, 0xbe, 0xef, 0x00, 0x1f] = ''deadbeef001f''"
    by (simp add: lower_hex_def hex_digit_def char_of_def bit_iff_odd)
  have hex2: "lower_hex [0x10, 0xa1] = ''10a1''"
    by (simp add: lower_hex_def hex_digit_def char_of_def bit_iff_odd)
  show ?thesis
    using
      ElfBuildID_hex
        [of "\<lambda>path. if path = ''/bin/noted''
               then Some \<lparr>ef_GetBuildID = Some (Some [0xde, 0xad, 0xbe, 0xef, 0x00, 0x1f]), ef_NewFile = None\<rparr>
               else None"
            "''/bin/noted''"
            "\<lparr>ef_GetBuildID = Some (Some [0xde, 0xad, 0xbe, 0xef, 0x00, 0x1f]), ef_NewFile = None\<rparr>"
            "[0xde, 0xad, 0xbe, 0xef, 0x00, 0x1f]"
            "\<lambda>bs. map (\<lambda>b. b + 1) bs"]
      ElfBuildID_hex
        [of "\<lambda>path. if path = ''/bin/plain''
               then Some \<lparr>ef_GetBuildID = Some None,
                          ef_NewFile = Some (\<lambda>name. if name = ''.text'' then Some (Some [0x0f, 0xa0]) else None)\<rparr>
               else None"
            "''/bin/plain''"
            "\<lparr>ef_GetBuildID = Some None,
              ef_NewFile = Some (\<lambda>name. if name = ''.text'' then Some (Some [0x0f, 0xa0]) else None)\<rparr>"
            _
            "\<lambda>bs. map (\<lambda>b. b + 1) bs"
            "\<lambda>name. if name = ''.text'' then Some (Some [0x0f, 0xa0]) else None"
            "[0x0f, 0xa0]"]
    by (simp add: hex1 hex2)
qed

text \<open>
  Claim C10. When the file opens, has no GNU build-ID note, parses as ELF and has no
  \<^verbatim>\<open>.text\<close> section, \<^verbatim>\<open>ElfBuildID\<close> does not return an error: it calls \<^verbatim>\<open>Open\<close>
  on the nil section and panics. This is the only way in which it fails to return,
  so it returns on every file exactly when every file that opens, has no note and
  parses has a \<^verbatim>\<open>.text\<close> section.
\<close>

theorem ElfBuildID_nil_section:
  "(os_Open file = Some f \<and> ef_GetBuildID f = Some None
      \<and> ef_NewFile f = Some Section \<and> Section ''.text'' = None
     \<longrightarrow> ElfBuildID os_Open sha1 file = PanicNilDereference)
   \<and> (ElfBuildID os_Open sha1 file = PanicNilDereference
        \<longleftrightarrow> (\<exists>f Section. os_Open file = Some f \<and> ef_GetBuildID f = Some None
              \<and> ef_NewFile f = Some Section \<and> Section ''.text'' = None))"
  by (auto simp: ElfBuildID_def split: option.splits)

theorem ElfBuildID_nil_section_witness:
  "ElfBuildID
     (\<lambda>path. if path = ''/bin/stripped''
        then Some \<lparr>ef_GetBuildID = Some None,
                   ef_NewFile = Some (\<lambda>name. if name = ''.data'' then Some (Some [1]) else None)\<rparr>
        else None)
     (\<lambda>bs. bs) ''/bin/stripped''
     = PanicNilDereference"
  using
    ElfBuildID_nil_section
      [of "\<lambda>path. if path = ''/bin/stripped''
             then Some \<lparr>ef_GetBuildID = Some None,
                        ef_NewFile = Some (\<lambda>name. if name = ''.data'' then Some (Some [1]) else None)\<rparr>
             else None"
          "''/bin/stripped''"
          "\<lparr>ef_GetBuildID = Some None,
            ef_NewFile = Some (\<lambda>name. if name = ''.data'' then Some (Some [1]) else None)\<rparr>"
          "\<lambda>name. if name = ''.data'' then Some (Some [1]) else None"
          "\<lambda>bs. bs"]
  by simp

section \<open>The drain loop: what a step changes\<close>

lemma for_each_invariant:
  assumes step: "\<And>s x r s'. P s \<Longrightarrow> f s x = (r, s') \<Longrightarrow> P s'"
    and init: "P s" and run: "for_each f s xs = (r, s')"
  shows "P s'"
  using init run
proof (induction xs arbitrary: s)
  case Nil
  then show ?case by simp
next
  case (Cons x xs)
  obtain r1 s1 where fx: "f s x = (r1, s1)" by (cases "f s x")
  have P1: "P s1" using step [OF Cons.prems(1) fx] .
  show ?case
  proof (cases r1)
    case None
    with Cons.prems(2) fx have "for_each f s1 xs = (r, s')" by simp
    with Cons.IH P1 show ?thesis by blast
  next
    case (Some err)
    with Cons.prems(2) fx have "s' = s1" by simp
    with P1 show ?thesis by simp
  qed
qed


lemma kernel_addr_frame:
  assumes "kernel_addr (st, sl) a = (r, st', sl')"
  shows "samples st' = samples st \<and> missingStacks st' = missingStacks st
         \<and> calls st' = calls st \<and> userFunctions st' = userFunctions st"
  using assms
  by (auto simp: kernel_addr_def append_location_def Let_def split: if_splits option.splits)

lemma user_addr_frame:
  assumes "user_addr e pid pm (st, sl) a = (r, st', sl')"
  shows "samples st' = samples st \<and> missingStacks st' = missingStacks st
         \<and> kernelLocations st' = kernelLocations st \<and> kernelAddresses st' = kernelAddresses st"
  using assms
  by (auto simp: user_addr_def append_location_def Let_def split: if_splits option.splits)

lemma kernel_loop_frame:
  assumes "for_each kernel_addr (st, sl) as = (r, st', sl')"
  shows "samples st' = samples st \<and> missingStacks st' = missingStacks st
         \<and> calls st' = calls st \<and> userFunctions st' = userFunctions st"
proof -
  let ?P = "\<lambda>s. samples (fst s) = samples st \<and> missingStacks (fst s) = missingStacks st
         \<and> calls (fst s) = calls st \<and> userFunctions (fst s) = userFunctions st"
  have "?P (st', sl')"
  proof (rule for_each_invariant [where P = ?P, OF _ _ assms])
    fix s x r s' assume "?P s" and "kernel_addr s x = (r, s')"
    then show "?P s'"
      using kernel_addr_frame [of "fst s" "snd s" x r "fst s'" "snd s'"] by simp
  qed simp
  then show ?thesis by simp
qed

lemma user_loop_frame:
  assumes "for_each (user_addr e pid pm) (st, sl) as = (r, st', sl')"
  shows "samples st' = samples st \<and> missingStacks st' = missingStacks st
         \<and> kernelLocations st' = kernelLocations st \<and> kernelAddresses st' = kernelAddresses st"
proof -
  let ?P = "\<lambda>s. samples (fst s) = samples st \<and> missingStacks (fst s) = missingStacks st
         \<and> kernelLocations (fst s) = kernelLocations st \<and> kernelAddresses (fst s) = kernelAddresses st"
  have "?P (st', sl')"
  proof (rule for_each_invariant [where P = ?P, OF _ _ assms])
    fix s x r s' assume "?P s" and "user_addr e pid pm s x = (r, s')"
    then show "?P s'"
      using user_addr_frame [of e pid pm "fst s" "snd s" x r "fst s'" "snd s'"] by simp
  qed simp
  then show ?thesis by simp
qed

lemma map_store_absent: "map_of xs k = None \<Longrightarrow> map_store xs k y = xs @ [(k, y)]"
  by (induction xs) (auto split: if_splits)

lemma map_store_total:
  fixes g :: "'k \<times> 'v \<Rightarrow> 'a::ab_group_add"
  shows "map_of xs k = Some x \<Longrightarrow>
    sum_list (map g (map_store xs k y)) = sum_list (map g xs) - g (k, x) + g (k, y)"
  by (induction xs) (auto split: if_splits)

text \<open>What a successful aggregation does to the samples.\<close>

lemma aggregate_samples:
  assumes "aggregate e st pid stack v = (None, st')"
  shows "missingStacks st' = missingStacks st \<and>
    (case map_of (samples st) stack of
       Some smp \<Rightarrow>
         st' = st\<lparr>samples := map_store (samples st) stack
                   (smp\<lparr>s_Value := (value0 smp + v) # tl (s_Value smp)\<rparr>)\<rparr>
     | None \<Rightarrow> (\<exists>sl. samples st' = samples st @ [(stack, \<lparr>s_Value = [v], s_Location = sl\<rparr>)]))"
proof (cases "map_of (samples st) stack")
  case (Some smp)
  with assms show ?thesis
    by (auto simp: aggregate_def value0_def split: list.splits)
next
  case None
  from assms None obtain st1 sl1 where
    k: "for_each kernel_addr (st, []) (drop stackDepth stack) = (None, st1, sl1)"
    by (auto simp: aggregate_def Let_def split: prod.splits option.splits)
  from assms None k obtain st3 sl3 where
    u: "for_each (user_addr e pid (CacheForPID e pid))
          (st1\<lparr>calls := calls st1 @ [CallCacheForPID pid]\<rparr>, sl1) (take stackDepth stack)
        = (None, st3, sl3)"
    and st': "st' = st3\<lparr>samples := map_store (samples st3) stack \<lparr>s_Value = [v], s_Location = sl3\<rparr>\<rparr>"
    by (auto simp: aggregate_def Let_def split: prod.splits option.splits)
  from kernel_loop_frame [OF k] user_loop_frame [OF u]
  have "samples st3 = samples st" "missingStacks st3 = missingStacks st" by simp_all
  with None st' show ?thesis by (simp add: map_store_absent)
qed

lemma aggregate_total:
  assumes "aggregate e st pid stack v = (None, st')"
  shows "samples_total (samples st') = samples_total (samples st) + v" "missingStacks st' = missingStacks st"
proof -
  note a = aggregate_samples [OF assms]
  show "missingStacks st' = missingStacks st" using a by simp
  show "samples_total (samples st') = samples_total (samples st) + v"
  proof (cases "map_of (samples st) stack")
    case None
    with a show ?thesis by (auto simp: samples_total_def value0_def)
  next
    case (Some smp)
    with a have "samples st' = map_store (samples st) stack
                   (smp\<lparr>s_Value := (value0 smp + v) # tl (s_Value smp)\<rparr>)" by simp
    then show ?thesis
      using map_store_total [OF Some, of "\<lambda>ks. value0 (snd ks)"]
      by (simp add: samples_total_def value0_def)
  qed
qed

lemma fetch_kernel_Missing:
  "fetch_kernel bo traces pid ksid us v = (cs, Missing ty v') \<Longrightarrow> ty = ''kernel'' \<and> v' = v"
  by (auto simp: fetch_kernel_def Let_def split: if_splits option.splits)

lemma fetch_kernel_Fetched:
  "fetch_kernel bo traces pid ksid us v = (cs, Fetched pid' s v') \<Longrightarrow> v' = v \<and> pid' = pid"
  by (auto simp: fetch_kernel_def Let_def split: if_splits option.splits)

lemma fetch_stacks_Missing:
  "fetch_stacks bo traces pid usid ksid v = (cs, Missing ty v')
     \<Longrightarrow> (ty = ''user'' \<or> ty = ''kernel'') \<and> v' = v"
  by (auto simp: fetch_stacks_def Let_def split: option.splits prod.splits
           dest: fetch_kernel_Missing)

lemma fetch_stacks_Fetched:
  "fetch_stacks bo traces pid usid ksid v = (cs, Fetched pid' s v') \<Longrightarrow> v' = v \<and> pid' = pid"
  by (auto simp: fetch_stacks_def Let_def split: option.splits prod.splits
           dest: fetch_kernel_Fetched)

lemma fetch_Missing:
  "fetch bo maps k = (cs, Missing ty v)
     \<Longrightarrow> (ty = ''user'' \<or> ty = ''kernel'') \<and> tuple_count bo maps k = v"
  by (auto simp: fetch_def tuple_count_def split: sum.splits option.splits prod.splits
           dest: fetch_stacks_Missing)

lemma fetch_Fetched:
  "fetch bo maps k = (cs, Fetched pid s v) \<Longrightarrow> tuple_count bo maps k = v"
  by (auto simp: fetch_def tuple_count_def split: sum.splits option.splits prod.splits
           dest: fetch_stacks_Fetched)

lemma step_balance:
  assumes "step e maps st k = (None, st')"
  shows "samples_total (samples st') + dropped_count (byteOrder e) maps ''user'' k
           + dropped_count (byteOrder e) maps ''kernel'' k
         = samples_total (samples st) + tuple_count (byteOrder e) maps k"
    and "missingStacks st' ty = missingStacks st ty + (if is_dropped (byteOrder e) maps ty k then 1 else 0)"
proof -
  obtain cs r where f: "fetch (byteOrder e) maps k = (cs, r)" by (cases "fetch (byteOrder e) maps k")
  show "samples_total (samples st') + dropped_count (byteOrder e) maps ''user'' k
           + dropped_count (byteOrder e) maps ''kernel'' k
         = samples_total (samples st) + tuple_count (byteOrder e) maps k"
  proof (cases r)
    case (Abort err)
    with assms f show ?thesis by (simp add: step_def)
  next
    case (Missing ty' v)
    with f fetch_Missing [of "byteOrder e" maps k cs ty' v]
    have "(ty' = ''user'' \<or> ty' = ''kernel'') \<and> tuple_count (byteOrder e) maps k = v" by simp
    moreover from assms f Missing have "samples st' = samples st" by (auto simp: step_def Let_def)
    ultimately show ?thesis using f Missing
      by (auto simp: dropped_count_def is_dropped_def)
  next
    case (Fetched pid stack v)
    with f fetch_Fetched [of "byteOrder e" maps k cs pid stack v]
    have "tuple_count (byteOrder e) maps k = v" by simp
    moreover from assms f Fetched
    have "aggregate e (st\<lparr>calls := calls st @ cs\<rparr>) pid stack v = (None, st')"
      by (simp add: step_def Let_def)
    from aggregate_total(1) [OF this] have "samples_total (samples st') = samples_total (samples st) + v" by simp
    ultimately show ?thesis using f Fetched
      by (simp add: dropped_count_def is_dropped_def)
  qed
  show "missingStacks st' ty = missingStacks st ty + (if is_dropped (byteOrder e) maps ty k then 1 else 0)"
  proof (cases r)
    case (Abort err)
    with assms f show ?thesis by (simp add: step_def)
  next
    case (Missing ty' v)
    with assms f show ?thesis by (auto simp: step_def Let_def is_dropped_def)
  next
    case (Fetched pid stack v)
    with assms f
    have "aggregate e (st\<lparr>calls := calls st @ cs\<rparr>) pid stack v = (None, st')"
      by (simp add: step_def Let_def)
    from aggregate_total(2) [OF this] show ?thesis using f Fetched by (simp add: is_dropped_def)
  qed
qed

lemma balance_step:
  fixes a :: "'a::ab_group_add"
  assumes "a' + X + Y = a1 + T" and "a1 + x + y = a + t"
  shows "a' + (x + X) + (y + Y) = a + (t + T)"
proof -
  have "a' + (x + X) + (y + Y) = (a' + X + Y) + (x + y)" by (simp add: ac_simps)
  also have "\<dots> = (a1 + x + y) + T" using assms(1) by (simp add: ac_simps)
  also have "\<dots> = a + (t + T)" using assms(2) by (simp add: ac_simps)
  finally show ?thesis .
qed

lemma drain_balance:
  assumes "for_each (step e maps) st ks = (None, st')"
  shows "samples_total (samples st') + sum_list (map (dropped_count (byteOrder e) maps ''user'') ks)
           + sum_list (map (dropped_count (byteOrder e) maps ''kernel'') ks)
         = samples_total (samples st) + sum_list (map (tuple_count (byteOrder e) maps) ks)
       \<and> missingStacks st' ty = missingStacks st ty + length (filter (is_dropped (byteOrder e) maps ty) ks)"
  using assms
proof (induction ks arbitrary: st)
  case Nil
  then show ?case by simp
next
  case (Cons k ks)
  obtain r1 st1 where s1: "step e maps st k = (r1, st1)" by (cases "step e maps st k")
  with Cons.prems have r1: "r1 = None" and rest: "for_each (step e maps) st1 ks = (None, st')"
    by (auto split: option.splits)
  note b = step_balance(1) [OF s1 [unfolded r1]] step_balance(2) [OF s1 [unfolded r1], of ty]
  from Cons.IH [OF rest] b(2) have "missingStacks st' ty
      = missingStacks st ty + length (filter (is_dropped (byteOrder e) maps ty) (k # ks))"
    by simp
  moreover from Cons.IH [OF rest] b(1)
  have "samples_total (samples st') + sum_list (map (dropped_count (byteOrder e) maps ''user'') (k # ks))
           + sum_list (map (dropped_count (byteOrder e) maps ''kernel'') (k # ks))
         = samples_total (samples st) + sum_list (map (tuple_count (byteOrder e) maps) (k # ks))"
    using balance_step [of "samples_total (samples st')" _ _ "samples_total (samples st1)" _ _ _ "samples_total (samples st)"]
    by simp
  ultimately show ?case by simp
qed



lemma map_of_map_store:
  "map_of (map_store xs k y) k' = (if k' = k then Some y else map_of xs k')"
  by (induction xs) auto






text \<open>What a step does to the samples map, by the three outcomes of the fetch.\<close>

lemma step_samples:
  assumes "step e maps st k = (None, st')"
  shows "(case snd (fetch (byteOrder e) maps k) of
            Abort err \<Rightarrow> False
          | Missing ty v \<Rightarrow> samples st' = samples st
          | Fetched pid stack v \<Rightarrow>
              (case map_of (samples st) stack of
                 Some smp \<Rightarrow>
                   samples st' = map_store (samples st) stack
                      (smp\<lparr>s_Value := (value0 smp + v) # tl (s_Value smp)\<rparr>)
               | None \<Rightarrow> (\<exists>sl. samples st' = samples st @ [(stack, \<lparr>s_Value = [v], s_Location = sl\<rparr>)])))"
proof -
  obtain cs r where f: "fetch (byteOrder e) maps k = (cs, r)" by (cases "fetch (byteOrder e) maps k")
  show ?thesis
  proof (cases r)
    case (Abort err)
    with assms f show ?thesis by (simp add: step_def)
  next
    case (Missing ty v)
    with assms f show ?thesis by (auto simp: step_def Let_def)
  next
    case (Fetched pid stack v)
    with assms f
    have "aggregate e (st\<lparr>calls := calls st @ cs\<rparr>) pid stack v = (None, st')"
      by (simp add: step_def Let_def)
    from aggregate_samples [OF this] f Fetched show ?thesis
      by (auto split: option.splits)
  qed
qed





text \<open>Locations are only appended, and location \<open>i\<close> has the ID \<open>i + 1\<close>.\<close>

lemma kernel_addr_locations:
  assumes "kernel_addr (st, sl) a = (r, st', sl')"
  shows "(\<exists>new. locations st' = locations st @ new) \<and> (ids_ok st \<longrightarrow> ids_ok st')"
  using assms
  by (auto simp: kernel_addr_def append_location_def Let_def ids_ok_def split: if_splits option.splits)

lemma user_addr_locations:
  assumes "user_addr e pid pm (st, sl) a = (r, st', sl')"
  shows "(\<exists>new. locations st' = locations st @ new \<and> (\<forall>l \<in> set new. l_Mapping l \<noteq> KernelMapping))
         \<and> (ids_ok st \<longrightarrow> ids_ok st')"
  using assms
  by (auto simp: user_addr_def append_location_def Let_def ids_ok_def split: if_splits option.splits)

lemma kernel_loop_locations:
  assumes "for_each kernel_addr (st, sl) as = (r, st', sl')"
  shows "(\<exists>new. locations st' = locations st @ new) \<and> (ids_ok st \<longrightarrow> ids_ok st')"
proof -
  let ?P = "\<lambda>s. (\<exists>new. locations (fst s) = locations st @ new) \<and> (ids_ok st \<longrightarrow> ids_ok (fst s))"
  have "?P (st', sl')"
  proof (rule for_each_invariant [where P = ?P, OF _ _ assms])
    fix s x r s' assume P: "?P s" and step: "kernel_addr s x = (r, s')"
    from kernel_addr_locations [of "fst s" "snd s" x r "fst s'" "snd s'"] step P
    show "?P s'" by auto
  qed simp
  then show ?thesis by simp
qed

lemma user_loop_locations:
  assumes "for_each (user_addr e pid pm) (st, sl) as = (r, st', sl')"
  shows "(\<exists>new. locations st' = locations st @ new \<and> (\<forall>l \<in> set new. l_Mapping l \<noteq> KernelMapping))
         \<and> (ids_ok st \<longrightarrow> ids_ok st')"
proof -
  let ?P = "\<lambda>s. (\<exists>new. locations (fst s) = locations st @ new
                   \<and> (\<forall>l \<in> set new. l_Mapping l \<noteq> KernelMapping))
               \<and> (ids_ok st \<longrightarrow> ids_ok (fst s))"
  have "?P (st', sl')"
  proof (rule for_each_invariant [where P = ?P, OF _ _ assms])
    fix s x r s' assume P: "?P s" and step: "user_addr e pid pm s x = (r, s')"
    from P obtain new where n: "locations (fst s) = locations st @ new"
      "\<forall>l \<in> set new. l_Mapping l \<noteq> KernelMapping" by blast
    from user_addr_locations [of e pid pm "fst s" "snd s" x r "fst s'" "snd s'"] step
    obtain new' where n': "locations (fst s') = locations (fst s) @ new'"
      "\<forall>l \<in> set new'. l_Mapping l \<noteq> KernelMapping" and i: "ids_ok (fst s) \<longrightarrow> ids_ok (fst s')"
      by auto
    have "locations (fst s') = locations st @ (new @ new')" using n n' by simp
    moreover have "\<forall>l \<in> set (new @ new'). l_Mapping l \<noteq> KernelMapping" using n n' by auto
    ultimately show "?P s'" using P i by blast
  qed simp
  then show ?thesis by simp
qed


lemma kernel_zeros: "for_each kernel_addr s (replicate n 0) = (None, s)"
  by (induction n) (simp_all add: kernel_addr_def split: prod.splits)

lemma user_zeros: "for_each (user_addr e pid pm) s (replicate n 0) = (None, s)"
  by (induction n) (simp_all add: user_addr_def split: prod.splits)

text \<open>What an aggregation does to the locations, whatever it returns.\<close>

lemma aggregate_locations:
  assumes "aggregate e st pid stack v = (r, st')"
  shows "(\<exists>new. locations st' = locations st @ new) \<and> (ids_ok st \<longrightarrow> ids_ok st')"
proof (cases "map_of (samples st) stack")
  case (Some smp)
  with assms show ?thesis
    by (auto simp: aggregate_def ids_ok_def split: list.splits)
next
  case None
  obtain rk st1 sl1 where
    k: "for_each kernel_addr (st, []) (drop stackDepth stack) = (rk, st1, sl1)"
    by (metis prod_cases3)
  note kl = kernel_loop_locations [OF k]
  show ?thesis
  proof (cases rk)
    case (Some err)
    with assms None k have "st' = st1" by (simp add: aggregate_def)
    with kl show ?thesis by simp
  next
    case rk: None
    let ?st2 = "st1\<lparr>calls := calls st1 @ [CallCacheForPID pid]\<rparr>"
    obtain ru st3 sl3 where
      u: "for_each (user_addr e pid (CacheForPID e pid)) (?st2, sl1) (take stackDepth stack)
          = (ru, st3, sl3)"
      by (metis prod_cases3)
    from user_loop_locations [OF u]
    have ul: "\<exists>new. locations st3 = locations st1 @ new" "ids_ok st1 \<longrightarrow> ids_ok st3"
      by (auto simp: ids_ok_def)
    have "locations st' = locations st3" "ids_ok st3 \<longrightarrow> ids_ok st'"
      using assms None k rk u
      by (auto simp: aggregate_def Let_def ids_ok_def split: option.splits)
    with kl ul show ?thesis by auto
  qed
qed

lemma step_locations:
  assumes "step e maps st k = (r, st')"
  shows "(\<exists>new. locations st' = locations st @ new) \<and> (ids_ok st \<longrightarrow> ids_ok st')"
proof -
  obtain cs f where f: "fetch (byteOrder e) maps k = (cs, f)" by (cases "fetch (byteOrder e) maps k")
  show ?thesis
  proof (cases f)
    case (Fetched pid stack v)
    with assms f have "aggregate e (st\<lparr>calls := calls st @ cs\<rparr>) pid stack v = (r, st')"
      by (simp add: step_def Let_def)
    from aggregate_locations [OF this] show ?thesis by (simp add: ids_ok_def)
  qed (use assms f in \<open>auto simp: step_def Let_def ids_ok_def\<close>)
qed

lemma run_ids_ok:
  assumes "for_each (step e maps) st ks = (r, st')" and "ids_ok st"
  shows "ids_ok st'"
  by (rule for_each_invariant [where P = ids_ok, OF _ assms(2) assms(1)])
     (use step_locations in blast)

text \<open>An aggregation of a stack whose kernel half is all zeros.\<close>

lemma aggregate_no_kernel:
  assumes z: "drop stackDepth stack = replicate n 0"
    and a: "aggregate e st pid stack v = (r, st')"
  shows "kernelLocations st' = kernelLocations st \<and> kernelAddresses st' = kernelAddresses st
         \<and> (\<exists>new. locations st' = locations st @ new
                \<and> (\<forall>l \<in> set new. l_Mapping l \<noteq> KernelMapping))"
proof (cases "map_of (samples st) stack")
  case (Some smp)
  with a show ?thesis
    by (auto simp: aggregate_def split: list.splits)
next
  case None
  let ?st2 = "st\<lparr>calls := calls st @ [CallCacheForPID pid]\<rparr>"
  obtain ru st3 sl3 where
    u: "for_each (user_addr e pid (CacheForPID e pid)) (?st2, []) (take stackDepth stack)
        = (ru, st3, sl3)"
    by (metis prod_cases3)
  from user_loop_locations [OF u] user_loop_frame [OF u]
  have ul: "\<exists>new. locations st3 = locations st @ new \<and> (\<forall>l \<in> set new. l_Mapping l \<noteq> KernelMapping)"
    "kernelLocations st3 = kernelLocations st" "kernelAddresses st3 = kernelAddresses st"
    by auto
  have "locations st' = locations st3" "kernelLocations st' = kernelLocations st3"
    "kernelAddresses st' = kernelAddresses st3"
    using a None u z
    by (auto simp: aggregate_def kernel_zeros Let_def split: option.splits)
  with ul show ?thesis by simp
qed

lemma binary_Read_length: "binary_Read bo n b = Some xs \<Longrightarrow> length xs = n"
  by (auto simp: binary_Read_def split: if_splits)

text \<open>The fetch of a tuple without a kernel stack.\<close>

lemma fetch_kernel_negative:
  "sint ksid < 0 \<Longrightarrow>
     fetch_kernel bo traces pid ksid us v
       = ([], Fetched pid (us @ replicate (doubleStackDepth - stackDepth) 0) v)"
  by (simp add: fetch_kernel_def)

lemma fetch_negative:
  assumes "decode_key bo k = Inr (pid, usid, ksid)" and "sint ksid < 0"
  shows "set (fst (fetch bo maps k)) \<subseteq> {StackTraceGet (host_bytes32 bo usid)}"
    and "snd (fetch bo maps k) = Fetched pid' stack v \<Longrightarrow>
           pid' = pid \<and> length stack = doubleStackDepth
           \<and> drop stackDepth stack = replicate stackDepth 0"
  using assms
  by (auto simp: fetch_def fetch_stacks_def fetch_kernel_negative Let_def
        doubleStackDepth_def stackDepth_def
        split: option.splits dest: binary_Read_length)

text \<open>A sample, once made, stays in the map and keeps its locations.\<close>

lemma step_keeps_sample:
  assumes "step e maps st k = (None, st')" and "map_of (samples st) s = Some smp"
  shows "\<exists>smp'. map_of (samples st') s = Some smp' \<and> s_Location smp' = s_Location smp"
proof -
  obtain cs f where f: "fetch (byteOrder e) maps k = (cs, f)" by (cases "fetch (byteOrder e) maps k")
  note ss = step_samples [OF assms(1)]
  show ?thesis
  proof (cases f)
    case (Abort err)
    with ss f show ?thesis by simp
  next
    case (Missing ty v)
    with ss f assms(2) show ?thesis by simp
  next
    case (Fetched pid stack v)
    show ?thesis
    proof (cases "map_of (samples st) stack")
      case None
      with ss f Fetched obtain sl where
        "samples st' = samples st @ [(stack, \<lparr>s_Value = [v], s_Location = sl\<rparr>)]" by auto
      with assms(2) show ?thesis by (simp add: map_add_def)
    next
      case (Some smp0)
      with ss f Fetched have "samples st' = map_store (samples st) stack
                (smp0\<lparr>s_Value := (value0 smp0 + v) # tl (s_Value smp0)\<rparr>)" by simp
      with assms(2) Some show ?thesis by (auto simp: map_of_map_store)
    qed
  qed
qed




lemma kernel_line_ids:
  "map l_ID (fst (kernel_line syms (locs, kfs) i)) = map l_ID locs"
  by (simp add: kernel_line_def Let_def map_update list_update_same_conv)

lemma foldl_kernel_line_ids:
  "map l_ID (fst (foldl (kernel_line syms) (locs, kfs) is)) = map l_ID locs"
proof (induction "is" arbitrary: locs kfs)
  case Nil
  then show ?case by simp
next
  case (Cons i "is")
  obtain locs' kfs' where k: "kernel_line syms (locs, kfs) i = (locs', kfs')"
    by (cases "kernel_line syms (locs, kfs) i")
  with kernel_line_ids [of syms locs kfs i] have "map l_ID locs' = map l_ID locs" by simp
  with Cons.IH [of locs' kfs'] k show ?case by simp
qed

lemma foldl_add_function:
  "map fst (foldl add_function fs xs) = map fst fs @ map fst xs
   \<and> map (\<lambda>rf. f_ID (snd rf)) (foldl add_function fs xs)
       = map (\<lambda>rf. f_ID (snd rf)) fs @ map Suc [length fs..<length fs + length xs]"
proof (induction xs arbitrary: fs)
  case Nil
  then show ?case by simp
next
  case (Cons x xs)
  have "[length fs..<length fs + Suc (length xs)]
      = length fs # [Suc (length fs)..<Suc (length fs) + length xs]"
    by (simp add: upt_conv_Cons del: upt_Suc)
  with Cons.IH [of "add_function fs x"] show ?case
    by (simp add: add_function_def del: upt_Suc)
qed

section \<open>Building the profile: what it keeps\<close>

lemma build_profile_eq:
  assumes "Resolve e (kernelAddresses st) = Some syms"
    and "foldl (kernel_line syms) (locations st, []) (kernelLocations st) = (locs, kfs)"
  shows "build_profile e t d st =
    Some \<lparr>p_SampleType = [(''samples'', ''count'')],
          p_TimeNanos = t,
          p_DurationNanos = d,
          p_PeriodType = (''cpu'', ''nanoseconds''),
          p_Period = 10000000,
          p_Sample = map snd (rangeSamples e (samples st)),
          p_Mapping = map (\<lambda>hm. (ProcMapping (fst hm), snd hm)) (AllMappings e (mapping_calls (calls st)))
             @ [(KernelMapping, kernelMapping (Suc (length (AllMappings e (mapping_calls (calls st))))))],
          p_Location = locs,
          p_Function = foldl add_function
             (foldl add_function [] (map (\<lambda>af. (KernelFn (fst af), snd af)) (rangeKernelFunctions e kfs)))
             (map (\<lambda>kf. (UserFn (fst kf), snd kf)) (rangeUserFunctions e (userFunctions st)))\<rparr>"
  using assms by (simp add: build_profile_def Let_def)

lemma foldl_add_function_length: "length (foldl add_function fs xs) = length fs + length xs"
  using foldl_add_function [of fs xs, THEN conjunct1, THEN arg_cong [where f = length]]
  by simp

lemma function_ids:
  "map (\<lambda>rf. f_ID (snd rf)) (foldl add_function (foldl add_function [] ks) us)
     = map Suc [0..<length (foldl add_function (foldl add_function [] ks) us)]"
proof -
  have "map (\<lambda>rf. f_ID (snd rf)) (foldl add_function (foldl add_function [] ks) us)
      = map Suc [0..<length ks] @ map Suc [length ks..<length ks + length us]"
    using foldl_add_function [of "[]" ks, THEN conjunct2]
      foldl_add_function [of "foldl add_function [] ks" us, THEN conjunct2]
    by (simp add: foldl_add_function_length del: upt_Suc)
  also have "\<dots> = map Suc [0..<length ks + length us]"
    by (simp only: upt_add_eq_append [OF le0] map_append)
  finally show ?thesis by (simp add: foldl_add_function_length)
qed

lemma function_refs:
  "map fst (foldl add_function (foldl add_function [] ks) us) = map fst ks @ map fst us"
  using foldl_add_function [of "[]" ks, THEN conjunct1]
      foldl_add_function [of "foldl add_function [] ks" us, THEN conjunct1]
  by simp

lemma profileLoop_Some:
  assumes "c_profile (profileLoop e p t) = Some prof"
  shows "\<exists>st. drain e (cg_bpfMaps p) (init_state (cg_missingStacks p)) = (None, st)
           \<and> build_profile e t (cg_profilingDuration p) st = Some prof
           \<and> c_err (profileLoop e p t) = None
           \<and> cg_missingStacks (c_profiler (profileLoop e p t)) = missingStacks st"
  using assms
  by (auto simp: profileLoop_def Let_def split: prod.splits option.splits)

section \<open>Evaluating the example cycle\<close>

lemma decode_uint_append:
  "length w = n \<Longrightarrow> decode_uint bo n (w @ rest) = decode_uint bo n w"
  by (cases bo) (auto simp: decode_uint_def)

lemma binary_Read_Suc:
  assumes "length w = 8"
  shows "binary_Read bo (Suc n) (w @ rest) =
           (case binary_Read bo n rest of None \<Rightarrow> None | Some xs \<Rightarrow> Some (decode_uint bo 8 w # xs))"
proof -
  have "map (\<lambda>i. decode_uint bo 8 (drop (8 * i) (w @ rest)) :: u64) [0..<Suc n]
      = decode_uint bo 8 w # map (\<lambda>i. decode_uint bo 8 (drop (8 * i) rest)) [0..<n]"
    using assms
    by (simp add: upt_conv_Cons map_Suc_upt [symmetric] decode_uint_append del: upt_Suc)
  then show ?thesis using assms by (simp add: binary_Read_def del: upt_Suc)
qed

lemma le_word_zeros: "le_word (replicate n 0) = 0"
  by (induction n) simp_all

lemma decode_uint_zeros: "decode_uint bo k (replicate m 0) = 0"
  by (cases bo) (simp_all add: decode_uint_def le_word_zeros)

lemma binary_Read_zeros: "m = 8 * n \<Longrightarrow> binary_Read bo n (replicate m 0) = Some (replicate n 0)"
  by (auto simp: binary_Read_def decode_uint_zeros map_replicate_const intro!: nth_equalityI)

text \<open>A stack trace of one frame: eight bytes, then zeros.\<close>

lemma binary_Read_frame:
  "binary_Read bo 127 (b0 # b1 # b2 # b3 # b4 # b5 # b6 # b7 # replicate 1008 0)
     = Some (decode_uint bo 8 [b0, b1, b2, b3, b4, b5, b6, b7] # replicate 126 0)"
proof -
  have "binary_Read bo (Suc 126) ([b0, b1, b2, b3, b4, b5, b6, b7] @ replicate 1008 0)
      = Some (decode_uint bo 8 [b0, b1, b2, b3, b4, b5, b6, b7] # replicate 126 0)"
    by (subst binary_Read_Suc) (simp_all add: binary_Read_zeros)
  then show ?thesis by simp
qed

lemma zeros_neq_frame: "a \<noteq> 0 \<Longrightarrow> replicate n 0 \<noteq> a # xs"
  by (cases n) auto

lemmas fetch_eval =
  fetch_def decode_key_def ReadFull_def GetValue_def Uint64_def decode_uint_def
  fetch_stacks_def host_bytes32_def binary_Read_frame fetch_kernel_def
  doubleStackDepth_def stackDepth_def

lemma example_fetch_5_42:
  "fetch LittleEndian example_maps key_5_42 =
    ([StackTraceGet [42, 0, 0, 0]], Fetched 5 (0x1040 # replicate 126 0 @ replicate 127 0) 3)"
  by (simp add: fetch_eval example_maps_def key_5_42_def key_5_43_def key_7_42_def
      key_5_42_9_def key_5_42_10_def)

lemma example_fetch_5_43:
  "fetch LittleEndian example_maps key_5_43 = ([StackTraceGet [43, 0, 0, 0]], Missing ''user'' 2)"
  by (simp add: fetch_eval example_maps_def key_5_42_def key_5_43_def key_7_42_def
      key_5_42_9_def key_5_42_10_def)

lemma example_fetch_7_42:
  "fetch LittleEndian example_maps key_7_42 =
    ([StackTraceGet [42, 0, 0, 0]], Fetched 7 (0x1040 # replicate 126 0 @ replicate 127 0) 4)"
  by (simp add: fetch_eval example_maps_def key_5_42_def key_5_43_def key_7_42_def
      key_5_42_9_def key_5_42_10_def)

lemma example_fetch_5_42_9:
  "fetch LittleEndian example_maps key_5_42_9 =
    ([StackTraceGet [42, 0, 0, 0], StackTraceGet [9, 0, 0, 0]],
     Fetched 5 (0x1040 # replicate 126 0 @ 0xffffffff81000000 # replicate 126 0) 1)"
  by (simp add: fetch_eval example_maps_def key_5_42_def key_5_43_def key_7_42_def
      key_5_42_9_def key_5_42_10_def)

lemma example_fetch_5_42_10:
  "fetch LittleEndian example_maps key_5_42_10 =
    ([StackTraceGet [42, 0, 0, 0], StackTraceGet [10, 0, 0, 0]], Missing ''kernel'' 6)"
  by (simp add: fetch_eval example_maps_def key_5_42_def key_5_43_def key_7_42_def
      key_5_42_9_def key_5_42_10_def)

lemmas example_fetch = example_fetch_5_42 example_fetch_5_43 example_fetch_7_42
  example_fetch_5_42_9 example_fetch_5_42_10

lemma example_drained:
  "drained example_maps = [key_5_42, key_5_43, key_7_42, key_5_42_9, key_5_42_10]"
  by (simp add: drained_def example_maps_def)

lemma example_byteOrder: "byteOrder example_env = LittleEndian"
  by (simp add: example_env_def)

lemmas step_eval =
  step_def aggregate_def kernel_zeros user_zeros kernel_addr_def user_addr_def
  append_location_def jit_line_def stackDepth_def Let_def zeros_neq_frame

lemma frame_neq_zeros: "a \<noteq> 0 \<Longrightarrow> a # xs \<noteq> replicate n 0"
  by (cases n) auto

lemma example_drain:
  "drain example_env example_maps (init_state ms) = (None, example_state ms)"
  apply (simp add: drain_def example_drained example_byteOrder example_fetch step_eval
      frame_neq_zeros init_state_def example_state_def)
  apply (simp add: example_env_def)
  done

lemma example_build:
  "build_profile example_env t d (example_state ms) = Some (example_profile t d)"
  by (simp add: build_profile_def example_state_def kernel_line_def add_function_def Let_def
       kernelMapping_def example_env_def example_profile_def)

lemma example_keys_distinct:
  "distinct (map fst (counts example_maps))" "distinct (map fst (stackTraces example_maps))"
  by (simp_all add: example_maps_def key_5_42_def key_5_43_def key_7_42_def
      key_5_42_9_def key_5_42_10_def)

lemma example_send:
  "sendProfile example_env example_profiler (example_profile t d) = Some WriteRawFailed"
  by (simp add: sendProfile_def example_env_def)

lemma example_cycle:
  "profileLoop example_env example_profiler t =
     \<lparr>c_err = None,
      c_profiler = example_profiler
        \<lparr>cg_missingStacks := (\<lambda>ty. 0)(''user'' := Suc 0, ''kernel'' := Suc 0),
         cg_bpfMaps := \<lparr>counts = [], stackTraces = []\<rparr>\<rparr>,
      c_profile = Some (example_profile t 10000000000),
      c_sendErr = Some WriteRawFailed,
      c_cleanErr = None,
      c_ops = map (Pair StackTraces) (one_step_behind [[42, 0, 0, 0], [9, 0, 0, 0]])
              @ map (Pair Counts)
                  (one_step_behind [key_5_42, key_5_43, key_7_42, key_5_42_9, key_5_42_10])\<rparr>"
proof -
  have p: "cg_bpfMaps example_profiler = example_maps"
    "cg_missingStacks example_profiler = (\<lambda>ty. 0)"
    "cg_profilingDuration example_profiler = 10000000000"
    by (simp_all add: example_profiler_def)
  have c: "clean example_maps =
      (None, \<lparr>counts = [], stackTraces = []\<rparr>,
       map (Pair StackTraces) (one_step_behind [[42, 0, 0, 0], [9, 0, 0, 0]])
         @ map (Pair Counts)
             (one_step_behind [key_5_42, key_5_43, key_7_42, key_5_42_9, key_5_42_10]))"
    using example_keys_distinct
    by (simp add: clean_def clean_map_distinct) (simp add: example_maps_def)
  have m: "missingStacks (example_state (\<lambda>ty. 0)) = (\<lambda>ty. 0)(''user'' := Suc 0, ''kernel'' := Suc 0)"
    by (simp add: example_state_def)
  show ?thesis
    by (simp add: profileLoop_def p example_drain example_build example_send c m)
qed

section \<open>Counts as natural numbers\<close>

lemma map_store_total_nat:
  fixes g :: "'k \<times> 'v \<Rightarrow> nat"
  shows "map_of xs k = Some x \<Longrightarrow>
    sum_list (map g (map_store xs k y)) + g (k, x) = sum_list (map g xs) + g (k, y)"
  by (induction xs) (auto split: if_splits)

lemma map_of_le_total:
  fixes g :: "'k \<times> 'v \<Rightarrow> nat"
  shows "map_of xs k = Some x \<Longrightarrow> g (k, x) \<le> sum_list (map g xs)"
  by (induction xs) (auto split: if_splits)

lemma aggregate_weight:
  assumes a: "aggregate e st pid stack v = (None, st')"
    and bound: "samples_weight (samples st) + unat v < 2 ^ 64"
  shows "samples_weight (samples st') = samples_weight (samples st) + unat v"
proof (cases "map_of (samples st) stack")
  case None
  with aggregate_samples [OF a] show ?thesis
    by (auto simp: samples_weight_def value0_def)
next
  case (Some smp)
  let ?smp' = "smp\<lparr>s_Value := (value0 smp + v) # tl (s_Value smp)\<rparr>"
  from aggregate_samples [OF a] Some
  have upd: "samples st' = map_store (samples st) stack ?smp'" by simp
  have le: "unat (value0 smp) \<le> samples_weight (samples st)"
    using map_of_le_total [OF Some, of "\<lambda>ks. unat (value0 (snd ks))"]
    by (simp add: samples_weight_def)
  with bound have "unat (value0 smp) + unat v < 2 ^ LENGTH(64)" by simp
  then have add: "unat (value0 smp + v) = unat (value0 smp) + unat v"
    by (simp only: unat_add_lem)
  have "value0 ?smp' = value0 smp + v" by (simp add: value0_def)
  with map_store_total_nat [OF Some, of "\<lambda>ks. unat (value0 (snd ks))" ?smp'] add
  show ?thesis by (simp add: samples_weight_def upd)
qed

lemma step_weight:
  assumes s: "step e maps st k = (None, st')"
    and bound: "samples_weight (samples st) + unat (tuple_count (byteOrder e) maps k) < 2 ^ 64"
  shows "samples_weight (samples st') + unat (dropped_count (byteOrder e) maps ''user'' k)
           + unat (dropped_count (byteOrder e) maps ''kernel'' k)
         = samples_weight (samples st) + unat (tuple_count (byteOrder e) maps k)"
proof -
  obtain cs r where f: "fetch (byteOrder e) maps k = (cs, r)" by (cases "fetch (byteOrder e) maps k")
  show ?thesis
  proof (cases r)
    case (Abort err)
    with s f show ?thesis by (simp add: step_def)
  next
    case (Missing ty' v)
    with f fetch_Missing [of "byteOrder e" maps k cs ty' v]
    have "(ty' = ''user'' \<or> ty' = ''kernel'') \<and> tuple_count (byteOrder e) maps k = v" by simp
    moreover from s f Missing have "samples st' = samples st" by (auto simp: step_def Let_def)
    ultimately show ?thesis using f Missing
      by (auto simp: dropped_count_def is_dropped_def)
  next
    case (Fetched pid stack v)
    with f fetch_Fetched [of "byteOrder e" maps k cs pid stack v]
    have tc: "tuple_count (byteOrder e) maps k = v" by simp
    from s f Fetched
    have "aggregate e (st\<lparr>calls := calls st @ cs\<rparr>) pid stack v = (None, st')"
      by (simp add: step_def Let_def)
    from aggregate_weight [OF this] bound tc
    have "samples_weight (samples st') = samples_weight (samples st) + unat v" by simp
    with tc show ?thesis using f Fetched
      by (simp add: dropped_count_def is_dropped_def)
  qed
qed

lemma drain_weight:
  assumes "for_each (step e maps) st ks = (None, st')"
    and "samples_weight (samples st)
           + sum_list (map (\<lambda>k. unat (tuple_count (byteOrder e) maps k)) ks) < 2 ^ 64"
  shows "samples_weight (samples st')
           + sum_list (map (\<lambda>k. unat (dropped_count (byteOrder e) maps ''user'' k)) ks)
           + sum_list (map (\<lambda>k. unat (dropped_count (byteOrder e) maps ''kernel'' k)) ks)
         = samples_weight (samples st)
           + sum_list (map (\<lambda>k. unat (tuple_count (byteOrder e) maps k)) ks)"
  using assms
proof (induction ks arbitrary: st)
  case Nil
  then show ?case by simp
next
  case (Cons k ks)
  obtain r1 st1 where s1: "step e maps st k = (r1, st1)" by (cases "step e maps st k")
  with Cons.prems have r1: "r1 = None" and rest: "for_each (step e maps) st1 ks = (None, st')"
    by (auto split: option.splits)
  from Cons.prems(2)
  have b1: "samples_weight (samples st) + unat (tuple_count (byteOrder e) maps k) < 2 ^ 64"
    by simp
  note w = step_weight [OF s1 [unfolded r1] b1]
  from w Cons.prems(2)
  have b2: "samples_weight (samples st1)
           + sum_list (map (\<lambda>k. unat (tuple_count (byteOrder e) maps k)) ks) < 2 ^ 64"
    by simp
  from Cons.IH [OF rest b2] w show ?case by simp
qed

lemma sint_small: "unat (w :: u64) < 2 ^ 63 \<Longrightarrow> sint w = int (unat w)"
proof -
  assume "unat w < 2 ^ 63"
  then have "int (unat w) < int (2 ^ 63)" by (simp only: of_nat_less_iff)
  then have "uint w < 2 ^ 63" by simp
  moreover have "- (2 ^ 63) \<le> uint w"
  proof -
    have "- (2 ^ 63) \<le> (0 :: int)" by simp
    also have "0 \<le> uint w" by simp
    finally show ?thesis .
  qed
  ultimately have "signed_take_bit (LENGTH(64) - Suc 0) (uint w) = uint w"
    by (intro signed_take_bit_int_eq_self) simp_all
  then show ?thesis by (simp add: sint_uint)
qed

lemma build_profile_parts:
  assumes "build_profile e t d st = Some prof"
  shows "p_Sample prof = map snd (rangeSamples e (samples st))"
    and "map l_ID (p_Location prof) = map l_ID (locations st)"
    and "p_Mapping prof
           = map (\<lambda>hm. (ProcMapping (fst hm), snd hm)) (AllMappings e (mapping_calls (calls st)))
             @ [(KernelMapping, kernelMapping (Suc (length (AllMappings e (mapping_calls (calls st))))))]"
    and "\<exists>ka ua. map fst (p_Function prof) = map KernelFn ka @ map UserFn ua"
    and "map (\<lambda>rf. f_ID (snd rf)) (p_Function prof) = map Suc [0..<length (p_Function prof)]"
proof -
  from assms obtain syms where r: "Resolve e (kernelAddresses st) = Some syms"
    by (cases "Resolve e (kernelAddresses st)") (simp_all add: build_profile_def Let_def)
  obtain locs kfs where
    k: "foldl (kernel_line syms) (locations st, []) (kernelLocations st) = (locs, kfs)"
    by (cases "foldl (kernel_line syms) (locations st, []) (kernelLocations st)")
  let ?k = "map (\<lambda>af. (KernelFn (fst af), snd af)) (rangeKernelFunctions e kfs)"
  let ?u = "map (\<lambda>kf. (UserFn (fst kf), snd kf)) (rangeUserFunctions e (userFunctions st))"
  from build_profile_eq [OF r k, of t d] assms
  have prof: "prof = \<lparr>p_SampleType = [(''samples'', ''count'')],
          p_TimeNanos = t,
          p_DurationNanos = d,
          p_PeriodType = (''cpu'', ''nanoseconds''),
          p_Period = 10000000,
          p_Sample = map snd (rangeSamples e (samples st)),
          p_Mapping = map (\<lambda>hm. (ProcMapping (fst hm), snd hm)) (AllMappings e (mapping_calls (calls st)))
             @ [(KernelMapping, kernelMapping (Suc (length (AllMappings e (mapping_calls (calls st))))))],
          p_Location = locs,
          p_Function = foldl add_function (foldl add_function [] ?k) ?u\<rparr>"
    by simp
  show "p_Sample prof = map snd (rangeSamples e (samples st))" by (simp add: prof)
  show "map l_ID (p_Location prof) = map l_ID (locations st)"
    using foldl_kernel_line_ids [of syms "locations st" "[]" "kernelLocations st"] k
    by (simp add: prof)
  show "p_Mapping prof
           = map (\<lambda>hm. (ProcMapping (fst hm), snd hm)) (AllMappings e (mapping_calls (calls st)))
             @ [(KernelMapping, kernelMapping (Suc (length (AllMappings e (mapping_calls (calls st))))))]"
    by (simp add: prof)
  have "map fst (p_Function prof)
      = map KernelFn (map fst (rangeKernelFunctions e kfs))
        @ map UserFn (map fst (rangeUserFunctions e (userFunctions st)))"
    using function_refs [of ?k ?u] by (simp add: prof comp_def)
  then show "\<exists>ka ua. map fst (p_Function prof) = map KernelFn ka @ map UserFn ua" by blast
  show "map (\<lambda>rf. f_ID (snd rf)) (p_Function prof) = map Suc [0..<length (p_Function prof)]"
    using function_ids [of ?k ?u] by (simp add: prof)
qed

section \<open>The claims about one tuple and about the upload\<close>

text \<open>
  Claim C6. For a tuple whose key decodes and whose count reads, and whose user
  stack is not in the stack-trace map: the step returns no error; it adds one to
  the \<^verbatim>\<open>missing_stacks\<close> counter of type \<open>user\<close> and leaves the one of type
  \<open>kernel\<close>; the samples, the locations and the other cycle-local maps are as
  before (the only other change is the record of the one read of the stack-trace
  map); and the loop goes on with the next tuple.
\<close>

theorem missing_user_stack_skips:
  assumes "decode_key (byteOrder e) k = Inr (pid, usid, ksid)"
    and "GetValue (counts maps) k = Some valueBytes"
    and "Uint64 (byteOrder e) valueBytes = Some val"
    and "GetValue (stackTraces maps) (host_bytes32 (byteOrder e) usid) = None"
  shows "step e maps st k =
           (None, st\<lparr>calls := calls st @ [StackTraceGet (host_bytes32 (byteOrder e) usid)],
                      missingStacks := (missingStacks st)(''user'' := missingStacks st ''user'' + 1)\<rparr>)
         \<and> missingStacks (snd (step e maps st k)) ''kernel'' = missingStacks st ''kernel''
         \<and> samples (snd (step e maps st k)) = samples st
         \<and> locations (snd (step e maps st k)) = locations st
         \<and> kernelLocations (snd (step e maps st k)) = kernelLocations st
         \<and> kernelAddresses (snd (step e maps st k)) = kernelAddresses st
         \<and> locationIndices (snd (step e maps st k)) = locationIndices st
         \<and> userFunctions (snd (step e maps st k)) = userFunctions st
         \<and> for_each (step e maps) st (k # ks) = for_each (step e maps) (snd (step e maps st k)) ks"
proof -
  have f: "fetch (byteOrder e) maps k
         = ([StackTraceGet (host_bytes32 (byteOrder e) usid)], Missing ''user'' val)"
    using assms by (simp add: fetch_def fetch_stacks_def)
  have s: "step e maps st k =
           (None, st\<lparr>calls := calls st @ [StackTraceGet (host_bytes32 (byteOrder e) usid)],
                      missingStacks := (missingStacks st)(''user'' := missingStacks st ''user'' + 1)\<rparr>)"
    by (simp add: step_def f)
  then show ?thesis by simp
qed

theorem missing_user_stack_skips_witness:
  "decode_key LittleEndian key_5_43 = Inr (5, 43, - 1)
   \<and> GetValue (counts example_maps) key_5_43 = Some [2, 0, 0, 0, 0, 0, 0, 0]
   \<and> GetValue (stackTraces example_maps) [43, 0, 0, 0] = None
   \<and> fst (step example_env example_maps (init_state (\<lambda>ty. 0)) key_5_43) = None
   \<and> missingStacks (snd (step example_env example_maps (init_state (\<lambda>ty. 0)) key_5_43)) ''user'' = 1
   \<and> missingStacks (snd (step example_env example_maps (init_state (\<lambda>ty. 0)) key_5_43)) ''kernel'' = 0
   \<and> samples (snd (step example_env example_maps (init_state (\<lambda>ty. 0)) key_5_43)) = []
   \<and> locations (snd (step example_env example_maps (init_state (\<lambda>ty. 0)) key_5_43)) = []"
proof -
  have d: "decode_key (byteOrder example_env) key_5_43 = Inr (5, 43, - 1)"
    by (simp add: example_byteOrder decode_key_def ReadFull_def decode_uint_def key_5_43_def)
  have c: "GetValue (counts example_maps) key_5_43 = Some [2, 0, 0, 0, 0, 0, 0, 0]"
    by (simp add: GetValue_def example_maps_def key_5_42_def key_5_43_def)
  have u: "Uint64 (byteOrder example_env) [2, 0, 0, 0, 0, 0, 0, 0] = Some 2"
    by (simp add: example_byteOrder Uint64_def decode_uint_def)
  have h: "host_bytes32 LittleEndian 43 = [43, 0, 0, 0]"
    by (simp add: host_bytes32_def)
  have g: "GetValue (stackTraces example_maps) (host_bytes32 (byteOrder example_env) 43) = None"
    by (simp add: example_byteOrder h GetValue_def example_maps_def)
  from missing_user_stack_skips [OF d c u g, of "init_state (\<lambda>ty. 0)" "[]"] d c g
  show ?thesis by (simp add: init_state_def example_byteOrder h)
qed

text \<open>
  Claim C9. When the loop has drained the counts map and built the profile, and
  \<^verbatim>\<open>sendProfile\<close> returns an error: \<^verbatim>\<open>profileLoop\<close> returns \<^verbatim>\<open>nil\<close>, the
  maps afterwards are those \<^verbatim>\<open>clean\<close> leaves, and the tick of \<^verbatim>\<open>Run\<close> reaches
  \<^verbatim>\<open>loopReport\<close>, which records \<^verbatim>\<open>nil\<close> as the last error and the capture time as
  the time of the last profile, and changes nothing else.
\<close>

theorem send_failure_not_propagated:
  assumes "drain e (cg_bpfMaps p) (init_state (cg_missingStacks p)) = (None, st)"
    and "build_profile e t (cg_profilingDuration p) st = Some prof"
    and "sendProfile e p prof = Some err"
  shows "c_err (profileLoop e p t) = None
         \<and> c_profile (profileLoop e p t) = Some prof
         \<and> c_sendErr (profileLoop e p t) = Some err
         \<and> (c_cleanErr (profileLoop e p t), cg_bpfMaps (c_profiler (profileLoop e p t)),
              c_ops (profileLoop e p t)) = clean (cg_bpfMaps p)
         \<and> tick e p t
             = Reported ((c_profiler (profileLoop e p t))
                           \<lparr>cg_lastProfileTakenAt := t, cg_lastError := None\<rparr>)"
  using assms
  by (simp add: profileLoop_def tick_def loopReport_def Let_def split: prod.splits)

theorem send_failure_not_propagated_witness:
  "sendProfile example_env example_profiler (example_profile 7 10000000000) = Some WriteRawFailed
   \<and> c_err (profileLoop example_env example_profiler 7) = None
   \<and> cg_bpfMaps (c_profiler (profileLoop example_env example_profiler 7))
       = \<lparr>counts = [], stackTraces = []\<rparr>
   \<and> cg_lastError example_profiler = Some FailedIterator
   \<and> tick example_env example_profiler 7
       = Reported (example_profiler
           \<lparr>cg_missingStacks := (\<lambda>ty. 0)(''user'' := 1, ''kernel'' := 1),
            cg_bpfMaps := \<lparr>counts = [], stackTraces = []\<rparr>,
            cg_lastProfileTakenAt := 7, cg_lastError := None\<rparr>)"
proof -
  have p: "cg_bpfMaps example_profiler = example_maps"
    "cg_missingStacks example_profiler = (\<lambda>ty. 0)"
    "cg_profilingDuration example_profiler = 10000000000"
    "cg_lastError example_profiler = Some FailedIterator"
    by (simp_all add: example_profiler_def)
  have d: "drain example_env (cg_bpfMaps example_profiler)
             (init_state (cg_missingStacks example_profiler))
           = (None, example_state (\<lambda>ty. 0))"
    by (simp add: p example_drain)
  have b: "build_profile example_env 7 (cg_profilingDuration example_profiler)
             (example_state (\<lambda>ty. 0)) = Some (example_profile 7 10000000000)"
    by (simp add: p example_build)
  from send_failure_not_propagated [OF d b example_send]
  show ?thesis by (simp add: example_send example_cycle p)
qed

subsection \<open>Samples without kernel locations\<close>

lemma map_store_set: "set (map_store xs k v) \<subseteq> insert (k, v) (set xs)"
  by (induction xs) auto

lemma kernel_free_append: "kernel_free st (sl @ [i]) \<longleftrightarrow> kernel_free st sl \<and> kernel_free st [i]"
  by (simp add: kernel_free_def)

lemma kernel_free_grow:
  assumes "kernel_free st sl" and "locations st' = locations st @ new"
    and "\<forall>i \<in> set (kernelLocations st'). i \<in> set (kernelLocations st) \<or> length (locations st) \<le> i"
  shows "kernel_free st' sl"
  using assms by (fastforce simp: kernel_free_def list_all_iff nth_append)

lemma ucast_pid_0: "(ucast (pid :: u32) :: u64) = 0 \<longleftrightarrow> pid = 0"
proof -
  have "is_up (ucast :: u32 \<Rightarrow> u64)" by (simp add: is_up)
  then have "uint (ucast pid :: u64) = uint pid" by (rule uint_up_ucast)
  then show ?thesis by (simp only: flip: uint_0_iff)
qed

lemma fetch_tuple_pid:
  "fetch bo maps k = (cs, Fetched pid stack v) \<Longrightarrow> tuple_pid bo k = Some pid"
  by (auto simp: fetch_def fetch_stacks_def fetch_kernel_def tuple_pid_def Let_def
      split: sum.splits option.splits prod.splits if_splits)

lemma kernel_addr_ok:
  assumes ok: "locations_ok st" and k: "kernel_addr (st, sl) a = (r, st', sl')"
  shows "locations_ok st'"
proof (cases "a = 0 \<or> map_of (locationIndices st) (0, a) \<noteq> None")
  case True
  with k have "st' = st"
    by (auto simp: kernel_addr_def append_location_def split: if_splits)
  with ok show ?thesis by simp
next
  case False
  let ?n = "length (locations st)"
  from False k have st': "locations st' = locations st @ [\<lparr>l_ID = ?n + 1, l_Address = a,
        l_Mapping = KernelMapping, l_Line = []\<rparr>]"
    "kernelLocations st' = kernelLocations st @ [?n]"
    "locationIndices st' = map_store (locationIndices st) (0, a) ?n"
    "samples st' = samples st"
    by (auto simp: kernel_addr_def append_location_def Let_def split: if_splits)
  have 1: "snd ki < length (locations st')
        \<and> (fst (fst ki) \<noteq> 0 \<longrightarrow> l_Mapping (locations st' ! snd ki) \<noteq> KernelMapping)"
    if "ki \<in> set (locationIndices st')" for ki
  proof -
    from that map_store_set [of "locationIndices st" "(0, a)" ?n]
    have "ki = ((0, a), ?n) \<or> ki \<in> set (locationIndices st)" by (auto simp: st')
    then show ?thesis
      using ok by (auto simp: st' locations_ok_def nth_append)
  qed
  have 2: "i < length (locations st') \<and> l_Mapping (locations st' ! i) = KernelMapping"
    if "i \<in> set (kernelLocations st')" for i
    using that ok by (auto simp: st' locations_ok_def nth_append)
  have 3: "kernel_free st' (s_Location (snd ss))"
    if "ss \<in> set (samples st')" "drop stackDepth (fst ss) = replicate stackDepth 0" for ss
  proof -
    from that ok have "kernel_free st (s_Location (snd ss))" by (auto simp: st' locations_ok_def)
    then show ?thesis
      by (rule kernel_free_grow) (auto simp: st')
  qed
  from 1 2 3 show ?thesis unfolding locations_ok_def by blast
qed

lemma kernel_loop_ok:
  assumes "for_each kernel_addr (st, sl) as = (r, st', sl')" and "locations_ok st"
  shows "locations_ok st'"
proof -
  have "locations_ok (fst (st', sl'))"
  proof (rule for_each_invariant [where P = "\<lambda>s. locations_ok (fst s)", OF _ _ assms(1)])
    fix s x r s' assume "locations_ok (fst s)" and "kernel_addr s x = (r, s')"
    then show "locations_ok (fst s')"
      using kernel_addr_ok [of "fst s" "snd s" x r "fst s'" "snd s'"] by simp
  qed (simp add: assms(2))
  then show ?thesis by simp
qed

lemma user_addr_ok:
  assumes pid: "pid \<noteq> 0" and ok: "locations_ok st"
    and u: "user_addr e pid pm (st, sl) a = (r, st', sl')"
  shows "locations_ok st' \<and> (kernel_free st sl \<longrightarrow> kernel_free st' sl')"
proof (cases "a = 0")
  case True
  with u ok show ?thesis by (simp add: user_addr_def)
next
  case a: False
  let ?key = "(ucast pid :: u64, a)"
  from pid have key: "fst ?key \<noteq> 0" by (simp add: ucast_pid_0)
  show ?thesis
  proof (cases "map_of (locationIndices st) ?key")
    case (Some i)
    then have "(?key, i) \<in> set (locationIndices st)" by (rule map_of_SomeD)
    with ok key have i: "i < length (locations st)" "l_Mapping (locations st ! i) \<noteq> KernelMapping"
      by (auto simp: locations_ok_def)
    with ok have "i \<notin> set (kernelLocations st)" by (auto simp: locations_ok_def)
    with i have "kernel_free st [i]" by (simp add: kernel_free_def)
    moreover from u a Some i have "st' = st" "sl' = sl @ [i]"
      by (auto simp: user_addr_def append_location_def)
    ultimately show ?thesis using ok by (simp add: kernel_free_append)
  next
    case None
    let ?n = "length (locations st)"
    from None a u obtain l where st': "locations st' = locations st @ [l]"
      "l_Mapping l \<noteq> KernelMapping"
      "kernelLocations st' = kernelLocations st"
      "locationIndices st' = map_store (locationIndices st) ?key ?n"
      "samples st' = samples st" "sl' = sl @ [?n]"
      by (auto simp: user_addr_def append_location_def Let_def split: if_splits option.splits)
    have 1: "snd ki < length (locations st')
          \<and> (fst (fst ki) \<noteq> 0 \<longrightarrow> l_Mapping (locations st' ! snd ki) \<noteq> KernelMapping)"
      if "ki \<in> set (locationIndices st')" for ki
    proof -
      from that map_store_set [of "locationIndices st" ?key ?n]
      have "ki = (?key, ?n) \<or> ki \<in> set (locationIndices st)" by (auto simp: st')
      then show ?thesis
        using ok st'(2) by (auto simp: st' locations_ok_def nth_append)
    qed
    have 2: "i < length (locations st') \<and> l_Mapping (locations st' ! i) = KernelMapping"
      if "i \<in> set (kernelLocations st')" for i
      using that ok by (auto simp: st' locations_ok_def nth_append)
    have grow: "kernel_free st' xs" if "kernel_free st xs" for xs
      using that by (rule kernel_free_grow) (auto simp: st')
    have 3: "kernel_free st' (s_Location (snd ss))"
      if "ss \<in> set (samples st')" "drop stackDepth (fst ss) = replicate stackDepth 0" for ss
      using that ok by (auto simp: st' locations_ok_def intro: grow)
    have "?n \<notin> set (kernelLocations st)" using ok by (auto simp: locations_ok_def)
    then have new: "kernel_free st' [?n]"
      using st'(2) by (simp add: kernel_free_def st')
    from 1 2 3 have "locations_ok st'" unfolding locations_ok_def by blast
    with new grow show ?thesis by (simp add: st' kernel_free_append)
  qed
qed

lemma user_loop_ok:
  assumes run: "for_each (user_addr e pid pm) (st, sl) as = (r, st', sl')"
    and pid: "pid \<noteq> 0" and ok: "locations_ok st"
  shows "locations_ok st' \<and> (kernel_free st sl \<longrightarrow> kernel_free st' sl')"
proof -
  let ?P = "\<lambda>s. locations_ok (fst s) \<and> (kernel_free st sl \<longrightarrow> kernel_free (fst s) (snd s))"
  have "?P (st', sl')"
  proof (rule for_each_invariant [where P = ?P, OF _ _ run])
    fix s x r s' assume "?P s" and "user_addr e pid pm s x = (r, s')"
    then show "?P s'"
      using user_addr_ok [OF pid, of "fst s" e pm "snd s" x r "fst s'" "snd s'"] by simp
  qed (simp add: ok)
  then show ?thesis by simp
qed

lemma locations_ok_calls: "locations_ok (st\<lparr>calls := cs\<rparr>) = locations_ok st"
  by (simp add: locations_ok_def kernel_free_def)

lemma kernel_free_calls: "kernel_free (st\<lparr>calls := cs\<rparr>) sl = kernel_free st sl"
  by (simp add: kernel_free_def)

lemma locations_ok_missing: "locations_ok (st\<lparr>missingStacks := ms\<rparr>) = locations_ok st"
  by (simp add: locations_ok_def kernel_free_def)

lemma locations_ok_samples:
  assumes "locations_ok st"
    and "\<forall>ss \<in> set smps. drop stackDepth (fst ss) = replicate stackDepth 0
            \<longrightarrow> kernel_free st (s_Location (snd ss))"
  shows "locations_ok (st\<lparr>samples := smps\<rparr>)"
  using assms by (simp add: locations_ok_def kernel_free_def)

lemma aggregate_ok:
  assumes pid: "pid \<noteq> 0" and ok: "locations_ok st"
    and a: "aggregate e st pid stack v = (r, st')"
  shows "locations_ok st'"
proof (cases "map_of (samples st) stack")
  case (Some smp)
  then have in_s: "(stack, smp) \<in> set (samples st)" by (rule map_of_SomeD)
  show ?thesis
  proof (cases "s_Value smp")
    case Nil
    with a Some ok show ?thesis by (simp add: aggregate_def)
  next
    case (Cons v0 vs)
    with a Some have st': "st' = st\<lparr>samples := map_store (samples st) stack (smp\<lparr>s_Value := (v0 + v) # vs\<rparr>)\<rparr>"
      by (simp add: aggregate_def)
    show ?thesis unfolding st'
    proof (rule locations_ok_samples [OF ok], rule ballI, rule impI)
      fix ss assume ss: "ss \<in> set (map_store (samples st) stack (smp\<lparr>s_Value := (v0 + v) # vs\<rparr>))"
        and z: "drop stackDepth (fst ss) = replicate stackDepth 0"
      from ss map_store_set [of "samples st" stack "smp\<lparr>s_Value := (v0 + v) # vs\<rparr>"]
      have "ss = (stack, smp\<lparr>s_Value := (v0 + v) # vs\<rparr>) \<or> ss \<in> set (samples st)" by auto
      then show "kernel_free st (s_Location (snd ss))"
        using ok in_s z by (auto simp: locations_ok_def)
    qed
  qed
next
  case None
  obtain r1 st1 sl1 where k: "for_each kernel_addr (st, []) (drop stackDepth stack) = (r1, st1, sl1)"
    by (metis prod_cases3)
  from kernel_loop_ok [OF k ok] have ok1: "locations_ok st1" .
  show ?thesis
  proof (cases r1)
    case (Some err)
    with a None k ok1 show ?thesis by (simp add: aggregate_def)
  next
    case r1: None
    let ?st2 = "st1\<lparr>calls := calls st1 @ [CallCacheForPID pid]\<rparr>"
    obtain r3 st3 sl3 where
      u: "for_each (user_addr e pid (CacheForPID e pid)) (?st2, sl1) (take stackDepth stack) = (r3, st3, sl3)"
      by (metis prod_cases3)
    from user_loop_ok [OF u pid] ok1
    have ok3: "locations_ok st3" and kf: "kernel_free st1 sl1 \<Longrightarrow> kernel_free st3 sl3"
      by (simp_all add: locations_ok_calls kernel_free_calls)
    show ?thesis
    proof (cases r3)
      case (Some err)
      with a None k r1 u ok3 show ?thesis by (simp add: aggregate_def Let_def)
    next
      case r3: None
      with a None k r1 u have st': "st' = st3\<lparr>samples := map_store (samples st3) stack
            \<lparr>s_Value = [v], s_Location = sl3\<rparr>\<rparr>"
        by (simp add: aggregate_def Let_def)
      show ?thesis unfolding st'
      proof (rule locations_ok_samples [OF ok3], rule ballI, rule impI)
        fix ss assume ss: "ss \<in> set (map_store (samples st3) stack \<lparr>s_Value = [v], s_Location = sl3\<rparr>)"
          and z: "drop stackDepth (fst ss) = replicate stackDepth 0"
        from ss map_store_set [of "samples st3" stack "\<lparr>s_Value = [v], s_Location = sl3\<rparr>"]
        consider "ss = (stack, \<lparr>s_Value = [v], s_Location = sl3\<rparr>)" | "ss \<in> set (samples st3)" by auto
        then show "kernel_free st3 (s_Location (snd ss))"
        proof cases
          case 1
          with z have "drop stackDepth stack = replicate stackDepth 0" by simp
          with k have "sl1 = []" by (simp add: kernel_zeros)
          then have "kernel_free st1 sl1" by (simp add: kernel_free_def)
          from kf [OF this] 1 show ?thesis by simp
        next
          case 2
          with ok3 z show ?thesis by (auto simp: locations_ok_def)
        qed
      qed
    qed
  qed
qed

lemma step_ok:
  assumes pid: "tuple_pid (byteOrder e) k \<noteq> Some 0" and ok: "locations_ok st"
    and s: "step e maps st k = (r, st')"
  shows "locations_ok st'"
proof -
  obtain cs f where f: "fetch (byteOrder e) maps k = (cs, f)" by (cases "fetch (byteOrder e) maps k")
  show ?thesis
  proof (cases f)
    case (Fetched pid' stack v)
    with f pid fetch_tuple_pid [of "byteOrder e" maps k cs pid' stack v] have p: "pid' \<noteq> 0" by auto
    from s f Fetched have a: "aggregate e (st\<lparr>calls := calls st @ cs\<rparr>) pid' stack v = (r, st')"
      by (simp add: step_def Let_def)
    from ok have "locations_ok (st\<lparr>calls := calls st @ cs\<rparr>)" by (simp add: locations_ok_calls)
    from aggregate_ok [OF p this a] show ?thesis .
  qed (use s f ok in \<open>auto simp: step_def Let_def locations_ok_calls locations_ok_missing\<close>)
qed

lemma run_ok:
  assumes "for_each (step e maps) st ks = (r, st')" and "locations_ok st"
    and "\<forall>k \<in> set ks. tuple_pid (byteOrder e) k \<noteq> Some 0"
  shows "locations_ok st'"
  using assms
proof (induction ks arbitrary: st)
  case Nil
  then show ?case by simp
next
  case (Cons k ks)
  obtain r1 st1 where s1: "step e maps st k = (r1, st1)" by (cases "step e maps st k")
  from Cons.prems have ok1: "locations_ok st1"
    using step_ok [OF _ _ s1] by simp
  show ?case
  proof (cases r1)
    case None
    with Cons.prems s1 have "for_each (step e maps) st1 ks = (r, st')" by simp
    from Cons.IH [OF this ok1] Cons.prems(3) show ?thesis by simp
  next
    case (Some err)
    with Cons.prems s1 ok1 show ?thesis by simp
  qed
qed

lemma init_ok: "locations_ok (init_state ms)"
  by (simp add: locations_ok_def init_state_def)

lemma step_fetched_sample:
  assumes s: "step e maps st k = (None, st')"
    and f: "snd (fetch (byteOrder e) maps k) = Fetched pid stack v"
  shows "\<exists>smp. map_of (samples st') stack = Some smp"
proof (cases "map_of (samples st) stack")
  case None
  with step_samples [OF s] f obtain sl where
    "samples st' = samples st @ [(stack, \<lparr>s_Value = [v], s_Location = sl\<rparr>)]" by auto
  with None show ?thesis by (simp add: map_add_def)
next
  case (Some smp)
  with step_samples [OF s] f show ?thesis by (simp add: map_of_map_store)
qed

lemma step_new_stack:
  assumes f: "fetch (byteOrder e) maps k = (cs, Fetched pid stack v)"
    and z: "drop stackDepth stack = replicate n 0"
    and new: "map_of (samples st) stack = None"
  shows "\<exists>r stu sl.
      for_each (user_addr e pid (CacheForPID e pid))
        (st\<lparr>calls := calls st @ cs @ [CallCacheForPID pid]\<rparr>, []) (take stackDepth stack) = (r, stu, sl)
    \<and> step e maps st k
        = (r, if r = None
              then stu\<lparr>samples := map_store (samples stu) stack \<lparr>s_Value = [v], s_Location = sl\<rparr>\<rparr>
              else stu)"
proof -
  obtain r stu sl where u: "for_each (user_addr e pid (CacheForPID e pid))
        (st\<lparr>calls := calls st @ cs @ [CallCacheForPID pid]\<rparr>, []) (take stackDepth stack) = (r, stu, sl)"
    by (metis prod_cases3)
  have "step e maps st k
        = (r, if r = None
              then stu\<lparr>samples := map_store (samples stu) stack \<lparr>s_Value = [v], s_Location = sl\<rparr>\<rparr>
              else stu)"
    using f z new u
    by (cases r) (simp_all add: step_def aggregate_def kernel_zeros Let_def)
  with u show ?thesis by blast
qed

lemma step_old_stack:
  assumes f: "fetch (byteOrder e) maps k = (cs, Fetched pid stack v)"
    and old: "map_of (samples st) stack = Some smp"
  shows "locations (snd (step e maps st k)) = locations st"
  using assms by (simp add: step_def aggregate_def Let_def split: list.splits)

text \<open>
  Claim C5. For a tuple whose kernel stack ID is negative:
  \<^item> the only read of the stack-trace map is the one of the user stack;
  \<^item> if the tuple is not dropped, its combined stack has 254 slots, the slots 127 to
    253 are zero, and the loop over the kernel half does nothing, from any state;
  \<^item> if the stack is new, the step is the loop over the user half started with no
    location, and the sample it stores has the locations of that loop, so none
    from the kernel half; if the stack has a sample, the step adds no location and
    the sample keeps its locations;
  \<^item> in a cycle from the initial state in which no tuple has the pid 0, the sample
    of the stack after the step has no kernel location;
  \<^item> the kernel locations and kernel addresses are as before, and every location
    the step appends has a mapping other than the kernel's.
\<close>

theorem no_kernel_stack:
  assumes d: "decode_key (byteOrder e) k = Inr (pid, usid, ksid)" and n: "sint ksid < 0"
  shows "set (fst (fetch (byteOrder e) maps k)) \<subseteq> {StackTraceGet (host_bytes32 (byteOrder e) usid)}
    \<and> (\<forall>pid' stack v. snd (fetch (byteOrder e) maps k) = Fetched pid' stack v
          \<longrightarrow> length stack = doubleStackDepth \<and> drop stackDepth stack = replicate stackDepth 0
            \<and> (\<forall>s0. for_each kernel_addr s0 (drop stackDepth stack) = (None, s0))
            \<and> (map_of (samples st) stack = None \<longrightarrow>
                 (\<exists>r stu sl.
                    for_each (user_addr e pid' (CacheForPID e pid'))
                      (st\<lparr>calls := calls st @ fst (fetch (byteOrder e) maps k) @ [CallCacheForPID pid']\<rparr>, [])
                      (take stackDepth stack) = (r, stu, sl)
                  \<and> step e maps st k
                      = (r, if r = None
                            then stu\<lparr>samples := map_store (samples stu) stack
                                       \<lparr>s_Value = [v], s_Location = sl\<rparr>\<rparr>
                            else stu)))
            \<and> (\<forall>smp. map_of (samples st) stack = Some smp \<longrightarrow>
                 locations (snd (step e maps st k)) = locations st
                 \<and> (fst (step e maps st k) = None \<longrightarrow>
                      (\<exists>smp'. map_of (samples (snd (step e maps st k))) stack = Some smp'
                             \<and> s_Location smp' = s_Location smp)))
            \<and> (\<forall>ms pre. for_each (step e maps) (init_state ms) pre = (None, st)
                   \<and> (\<forall>k' \<in> set (pre @ [k]). tuple_pid (byteOrder e) k' \<noteq> Some 0)
                   \<and> fst (step e maps st k) = None
                 \<longrightarrow> (\<exists>smp. map_of (samples (snd (step e maps st k))) stack = Some smp
                          \<and> kernel_free (snd (step e maps st k)) (s_Location smp))))
    \<and> kernelLocations (snd (step e maps st k)) = kernelLocations st
    \<and> kernelAddresses (snd (step e maps st k)) = kernelAddresses st
    \<and> (\<exists>new. locations (snd (step e maps st k)) = locations st @ new
           \<and> (\<forall>l \<in> set new. l_Mapping l \<noteq> KernelMapping))"
proof -
  let ?bo = "byteOrder e"
  let ?cs = "fst (fetch ?bo maps k)"
  let ?r = "fst (step e maps st k)" and ?st' = "snd (step e maps st k)"
  note fn = fetch_negative [OF d n, of maps]
  have s: "step e maps st k = (?r, ?st')" by simp
  have frame: "kernelLocations ?st' = kernelLocations st \<and> kernelAddresses ?st' = kernelAddresses st
    \<and> (\<exists>new. locations ?st' = locations st @ new \<and> (\<forall>l \<in> set new. l_Mapping l \<noteq> KernelMapping))"
  proof -
    obtain cs f where f: "fetch ?bo maps k = (cs, f)" by (cases "fetch ?bo maps k")
    obtain r st' where s': "step e maps st k = (r, st')" by (cases "step e maps st k")
    have "kernelLocations st' = kernelLocations st \<and> kernelAddresses st' = kernelAddresses st
      \<and> (\<exists>new. locations st' = locations st @ new \<and> (\<forall>l \<in> set new. l_Mapping l \<noteq> KernelMapping))"
    proof (cases f)
      case (Fetched pid' stack v)
      with fn(2) [of pid' stack v] f have z: "drop stackDepth stack = replicate stackDepth 0" by simp
      from s' f Fetched have "aggregate e (st\<lparr>calls := calls st @ cs\<rparr>) pid' stack v = (r, st')"
        by (simp add: step_def Let_def)
      from aggregate_no_kernel [OF z this] show ?thesis by simp
    qed (use s' f in \<open>auto simp: step_def Let_def\<close>)
    with s' show ?thesis by simp
  qed
  have tuple: "\<forall>pid' stack v. snd (fetch ?bo maps k) = Fetched pid' stack v
      \<longrightarrow> length stack = doubleStackDepth \<and> drop stackDepth stack = replicate stackDepth 0
      \<and> (\<forall>s0. for_each kernel_addr s0 (drop stackDepth stack) = (None, s0))
      \<and> (map_of (samples st) stack = None \<longrightarrow>
           (\<exists>r stu sl.
              for_each (user_addr e pid' (CacheForPID e pid'))
                (st\<lparr>calls := calls st @ ?cs @ [CallCacheForPID pid']\<rparr>, [])
                (take stackDepth stack) = (r, stu, sl)
            \<and> step e maps st k
                = (r, if r = None
                      then stu\<lparr>samples := map_store (samples stu) stack
                                 \<lparr>s_Value = [v], s_Location = sl\<rparr>\<rparr>
                      else stu)))
      \<and> (\<forall>smp. map_of (samples st) stack = Some smp \<longrightarrow>
           locations ?st' = locations st
           \<and> (?r = None \<longrightarrow>
                (\<exists>smp'. map_of (samples ?st') stack = Some smp' \<and> s_Location smp' = s_Location smp)))
      \<and> (\<forall>ms pre. for_each (step e maps) (init_state ms) pre = (None, st)
             \<and> (\<forall>k' \<in> set (pre @ [k]). tuple_pid (byteOrder e) k' \<noteq> Some 0)
             \<and> ?r = None
           \<longrightarrow> (\<exists>smp. map_of (samples ?st') stack = Some smp \<and> kernel_free ?st' (s_Location smp)))"
  proof (intro allI impI)
    fix pid' stack v assume fetched: "snd (fetch ?bo maps k) = Fetched pid' stack v"
    then have ff: "fetch ?bo maps k = (?cs, Fetched pid' stack v)" by (simp add: prod_eq_iff)
    from fn(2) [OF fetched]
    have len: "length stack = doubleStackDepth"
      and z: "drop stackDepth stack = replicate stackDepth 0" by simp_all
    have kz: "\<forall>s0. for_each kernel_addr s0 (drop stackDepth stack) = (None, s0)"
      by (simp add: z kernel_zeros)
    have new: "map_of (samples st) stack = None \<longrightarrow>
           (\<exists>r stu sl.
              for_each (user_addr e pid' (CacheForPID e pid'))
                (st\<lparr>calls := calls st @ ?cs @ [CallCacheForPID pid']\<rparr>, [])
                (take stackDepth stack) = (r, stu, sl)
            \<and> step e maps st k
                = (r, if r = None
                      then stu\<lparr>samples := map_store (samples stu) stack
                                 \<lparr>s_Value = [v], s_Location = sl\<rparr>\<rparr>
                      else stu))"
      using step_new_stack [OF ff z] by (rule impI)
    have old: "\<forall>smp. map_of (samples st) stack = Some smp \<longrightarrow>
           locations ?st' = locations st
           \<and> (?r = None \<longrightarrow>
                (\<exists>smp'. map_of (samples ?st') stack = Some smp' \<and> s_Location smp' = s_Location smp))"
    proof (intro allI impI conjI)
      fix smp assume m: "map_of (samples st) stack = Some smp"
      from step_old_stack [OF ff m] show "locations ?st' = locations st" .
      assume "?r = None"
      with s have "step e maps st k = (None, ?st')" by simp
      from step_keeps_sample [OF this m]
      show "\<exists>smp'. map_of (samples ?st') stack = Some smp' \<and> s_Location smp' = s_Location smp" .
    qed
    have reach: "\<forall>ms pre. for_each (step e maps) (init_state ms) pre = (None, st)
             \<and> (\<forall>k' \<in> set (pre @ [k]). tuple_pid (byteOrder e) k' \<noteq> Some 0)
             \<and> ?r = None
           \<longrightarrow> (\<exists>smp. map_of (samples ?st') stack = Some smp \<and> kernel_free ?st' (s_Location smp))"
    proof (intro allI impI, elim conjE)
      fix ms pre
      assume run: "for_each (step e maps) (init_state ms) pre = (None, st)"
        and pids: "\<forall>k' \<in> set (pre @ [k]). tuple_pid (byteOrder e) k' \<noteq> Some 0"
        and r: "?r = None"
      from run_ok [OF run init_ok] pids have "locations_ok st" by simp
      from step_ok [OF _ this s] pids have ok': "locations_ok ?st'" by simp
      from s r have s': "step e maps st k = (None, ?st')" by simp
      from step_fetched_sample [OF s' fetched]
      obtain smp where m: "map_of (samples ?st') stack = Some smp" by auto
      then have "(stack, smp) \<in> set (samples ?st')" by (rule map_of_SomeD)
      with ok' z have "kernel_free ?st' (s_Location smp)" by (auto simp: locations_ok_def)
      with m show "\<exists>smp. map_of (samples ?st') stack = Some smp \<and> kernel_free ?st' (s_Location smp)"
        by blast
    qed
    from len z kz new old reach
    show "length stack = doubleStackDepth \<and> drop stackDepth stack = replicate stackDepth 0
      \<and> (\<forall>s0. for_each kernel_addr s0 (drop stackDepth stack) = (None, s0))
      \<and> (map_of (samples st) stack = None \<longrightarrow>
           (\<exists>r stu sl.
              for_each (user_addr e pid' (CacheForPID e pid'))
                (st\<lparr>calls := calls st @ ?cs @ [CallCacheForPID pid']\<rparr>, [])
                (take stackDepth stack) = (r, stu, sl)
            \<and> step e maps st k
                = (r, if r = None
                      then stu\<lparr>samples := map_store (samples stu) stack
                                 \<lparr>s_Value = [v], s_Location = sl\<rparr>\<rparr>
                      else stu)))
      \<and> (\<forall>smp. map_of (samples st) stack = Some smp \<longrightarrow>
           locations ?st' = locations st
           \<and> (?r = None \<longrightarrow>
                (\<exists>smp'. map_of (samples ?st') stack = Some smp' \<and> s_Location smp' = s_Location smp)))
      \<and> (\<forall>ms pre. for_each (step e maps) (init_state ms) pre = (None, st)
             \<and> (\<forall>k' \<in> set (pre @ [k]). tuple_pid (byteOrder e) k' \<noteq> Some 0)
             \<and> ?r = None
           \<longrightarrow> (\<exists>smp. map_of (samples ?st') stack = Some smp \<and> kernel_free ?st' (s_Location smp)))"
      by (intro conjI)
  qed
  show ?thesis
    by (rule conjI [OF fn(1) conjI [OF tuple frame]])
qed

theorem no_kernel_stack_witness:
  "decode_key LittleEndian key_5_42 = Inr (5, 42, - 1) \<and> sint (- 1 :: u32) < 0
   \<and> tuple_pid LittleEndian key_5_42_9 = Some 5 \<and> tuple_pid LittleEndian key_5_42 = Some 5
   \<and> fetch LittleEndian example_maps key_5_42
       = ([StackTraceGet [42, 0, 0, 0]], Fetched 5 (0x1040 # replicate 126 0 @ replicate 127 0) 3)
   \<and> drop stackDepth (0x1040 # replicate 126 0 @ replicate 127 (0 :: u64)) = replicate 127 0
   \<and> for_each (step example_env example_maps) (init_state (\<lambda>ty. 0)) [key_5_42_9]
       = (None, kernel_first)
   \<and> step example_env example_maps kernel_first key_5_42 = (None, kernel_first_then_user)
   \<and> kernelLocations kernel_first_then_user = [0]
   \<and> map l_Mapping (locations kernel_first_then_user) = [KernelMapping, ProcMapping 1]
   \<and> map_of (samples kernel_first_then_user) (0x1040 # replicate 126 0 @ replicate 127 0)
       = Some \<lparr>s_Value = [3], s_Location = [1]\<rparr>
   \<and> kernel_free kernel_first_then_user [1]
   \<and> \<not> kernel_free kernel_first_then_user [0]"
proof -
  have d: "decode_key (byteOrder example_env) key_5_42 = Inr (5, 42, - 1)"
    by (simp add: example_byteOrder decode_key_def ReadFull_def decode_uint_def key_5_42_def)
  have n: "sint (- 1 :: u32) < 0" by simp
  have p: "tuple_pid LittleEndian key_5_42_9 = Some 5" "tuple_pid LittleEndian key_5_42 = Some 5"
    by (simp_all add: tuple_pid_def decode_key_def ReadFull_def decode_uint_def key_5_42_def
        key_5_42_9_def)
  have pids: "\<forall>k' \<in> set ([key_5_42_9] @ [key_5_42]). tuple_pid (byteOrder example_env) k' \<noteq> Some 0"
    by (simp add: p example_byteOrder)
  have run: "for_each (step example_env example_maps) (init_state (\<lambda>ty. 0)) [key_5_42_9]
      = (None, kernel_first)"
    by (simp add: example_byteOrder example_fetch step_eval frame_neq_zeros init_state_def
        kernel_first_def)
       (simp add: example_env_def)
  have s: "step example_env example_maps kernel_first key_5_42 = (None, kernel_first_then_user)"
    by (simp add: example_byteOrder example_fetch step_eval frame_neq_zeros
        kernel_first_then_user_def kernel_first_def)
  have r: "fst (step example_env example_maps kernel_first key_5_42) = None"
    by (simp add: s)
  have f: "snd (fetch (byteOrder example_env) example_maps key_5_42)
      = Fetched 5 (0x1040 # replicate 126 0 @ replicate 127 0) 3"
    by (simp add: example_byteOrder example_fetch)
  note t = no_kernel_stack [OF d n, of example_maps kernel_first]
  note tuple = t [THEN conjunct2, THEN conjunct1, rule_format, OF f]
  note reach = tuple [THEN conjunct2, THEN conjunct2, THEN conjunct2, THEN conjunct2,
      THEN conjunct2, rule_format, of "\<lambda>ty. 0" "[key_5_42_9]"]
  have "\<exists>smp. map_of (samples (snd (step example_env example_maps kernel_first key_5_42)))
           (0x1040 # replicate 126 0 @ replicate 127 0) = Some smp
      \<and> kernel_free (snd (step example_env example_maps kernel_first key_5_42)) (s_Location smp)"
    by (rule reach) (rule conjI [OF run conjI [OF pids r]])
  then obtain smp where "map_of (samples kernel_first_then_user)
           (0x1040 # replicate 126 0 @ replicate 127 0) = Some smp"
      and "kernel_free kernel_first_then_user (s_Location smp)"
    by (auto simp: s)
  moreover have m: "map_of (samples kernel_first_then_user) (0x1040 # replicate 126 0 @ replicate 127 0)
       = Some \<lparr>s_Value = [3], s_Location = [1]\<rparr>"
    by (simp add: kernel_first_then_user_def kernel_first_def frame_neq_zeros zeros_neq_frame)
  ultimately have kf: "kernel_free kernel_first_then_user [1]" by auto
  have rest: "kernelLocations kernel_first_then_user = [0]"
    "map l_Mapping (locations kernel_first_then_user) = [KernelMapping, ProcMapping 1]"
    "\<not> kernel_free kernel_first_then_user [0]"
    by (simp_all add: kernel_first_then_user_def kernel_first_def kernel_free_def)
  from d p run s kf m rest show ?thesis
    by (simp add: example_byteOrder example_fetch stackDepth_def)
qed

section \<open>The claims about a whole cycle\<close>

lemma sum_list_perm:
  fixes f :: "'a \<Rightarrow> 'b::comm_monoid_add"
  assumes "mset ys = mset xs"
  shows "sum_list (map f ys) = sum_list (map f xs)"
  by (metis assms mset_map sum_mset_sum_list)

lemma sum_uint_unat:
  "sum_list (map (\<lambda>k. uint (f k :: u64)) ks) = int (sum_list (map (\<lambda>k. unat (f k)) ks))"
  by (induction ks) simp_all

lemma sum_sint_small:
  assumes "\<forall>s \<in> set xs. unat (g s :: u64) < 2 ^ 63"
  shows "sum_list (map (\<lambda>s. sint (g s)) xs) = int (sum_list (map (\<lambda>s. unat (g s)) xs))"
  using assms by (induction xs) (simp_all add: sint_small del: of_nat_unat)

text \<open>
  Claim C1, amended. For a cycle that builds a profile: the sum of \<^verbatim>\<open>Value[0]\<close>
  over the samples of the profile, plus the counts of the tuples dropped for a
  missing user stack, plus the counts of the tuples dropped for a missing kernel
  stack, is the sum of the counts of the drained tuples, in the 64-bit arithmetic of
  the code; each counter goes up by the number of tuples dropped for its type; and
  when the counts add up to less than \<open>2 ^ 63\<close> the equation holds for the plain
  integers, the values read as \<^verbatim>\<open>int64\<close>.
\<close>

theorem profile_balance:
  assumes prof: "c_profile (profileLoop e p t) = Some prof"
    and perm: "\<forall>xs. mset (rangeSamples e xs) = mset xs"
  shows "sum_list (map value0 (p_Sample prof))
           + sum_list (map (dropped_count (byteOrder e) (cg_bpfMaps p) ''user'') (drained (cg_bpfMaps p)))
           + sum_list (map (dropped_count (byteOrder e) (cg_bpfMaps p) ''kernel'') (drained (cg_bpfMaps p)))
         = sum_list (map (tuple_count (byteOrder e) (cg_bpfMaps p)) (drained (cg_bpfMaps p)))
    \<and> cg_missingStacks (c_profiler (profileLoop e p t)) ''user''
         = cg_missingStacks p ''user''
           + length (filter (is_dropped (byteOrder e) (cg_bpfMaps p) ''user'') (drained (cg_bpfMaps p)))
    \<and> cg_missingStacks (c_profiler (profileLoop e p t)) ''kernel''
         = cg_missingStacks p ''kernel''
           + length (filter (is_dropped (byteOrder e) (cg_bpfMaps p) ''kernel'') (drained (cg_bpfMaps p)))
    \<and> (sum_list (map (\<lambda>k. uint (tuple_count (byteOrder e) (cg_bpfMaps p) k)) (drained (cg_bpfMaps p))) < 2 ^ 63
         \<longrightarrow> sum_list (map (\<lambda>s. sint (value0 s)) (p_Sample prof))
               + sum_list (map (\<lambda>k. uint (dropped_count (byteOrder e) (cg_bpfMaps p) ''user'' k)) (drained (cg_bpfMaps p)))
               + sum_list (map (\<lambda>k. uint (dropped_count (byteOrder e) (cg_bpfMaps p) ''kernel'' k)) (drained (cg_bpfMaps p)))
             = sum_list (map (\<lambda>k. uint (tuple_count (byteOrder e) (cg_bpfMaps p) k)) (drained (cg_bpfMaps p))))"
proof -
  let ?bo = "byteOrder e" and ?maps = "cg_bpfMaps p"
  let ?ks = "drained ?maps"
  let ?init = "init_state (cg_missingStacks p)"
  from profileLoop_Some [OF prof] obtain st where
    run: "for_each (step e ?maps) ?init ?ks = (None, st)"
    and build: "build_profile e t (cg_profilingDuration p) st = Some prof"
    and ms: "cg_missingStacks (c_profiler (profileLoop e p t)) = missingStacks st"
    by (auto simp: drain_def)
  have smp: "p_Sample prof = map snd (rangeSamples e (samples st))"
    using build by (rule build_profile_parts(1))
  from perm have pm: "mset (rangeSamples e (samples st)) = mset (samples st)" by blast
  have tot: "sum_list (map value0 (p_Sample prof)) = samples_total (samples st)"
    using sum_list_perm [OF pm, of "\<lambda>ks. value0 (snd ks)"]
    by (simp add: smp samples_total_def comp_def)
  have wt: "sum_list (map (\<lambda>s. unat (value0 s)) (p_Sample prof)) = samples_weight (samples st)"
    using sum_list_perm [OF pm, of "\<lambda>ks. unat (value0 (snd ks))"]
    by (simp add: smp samples_weight_def comp_def)
  have init: "samples_total (samples ?init) = 0" "samples_weight (samples ?init) = 0"
    "missingStacks ?init = cg_missingStacks p"
    by (simp_all add: init_state_def samples_total_def samples_weight_def)
  note b = drain_balance [OF run]
  have "sum_list (map (\<lambda>s. sint (value0 s)) (p_Sample prof))
               + sum_list (map (\<lambda>k. uint (dropped_count ?bo ?maps ''user'' k)) ?ks)
               + sum_list (map (\<lambda>k. uint (dropped_count ?bo ?maps ''kernel'' k)) ?ks)
             = sum_list (map (\<lambda>k. uint (tuple_count ?bo ?maps k)) ?ks)"
    if small: "sum_list (map (\<lambda>k. uint (tuple_count ?bo ?maps k)) ?ks) < 2 ^ 63"
  proof -
    from small have "int (sum_list (map (\<lambda>k. unat (tuple_count ?bo ?maps k)) ?ks)) < int (2 ^ 63)"
      by (simp add: sum_uint_unat)
    then have small': "sum_list (map (\<lambda>k. unat (tuple_count ?bo ?maps k)) ?ks) < 2 ^ 63"
      by (simp only: of_nat_less_iff)
    then have "samples_weight (samples ?init)
        + sum_list (map (\<lambda>k. unat (tuple_count ?bo ?maps k)) ?ks) < 2 ^ 64"
      by (simp add: init)
    from drain_weight [OF run this]
    have w: "samples_weight (samples st)
           + sum_list (map (\<lambda>k. unat (dropped_count ?bo ?maps ''user'' k)) ?ks)
           + sum_list (map (\<lambda>k. unat (dropped_count ?bo ?maps ''kernel'' k)) ?ks)
         = sum_list (map (\<lambda>k. unat (tuple_count ?bo ?maps k)) ?ks)"
      by (simp add: init)
    with small' wt have "sum_list (map (\<lambda>s. unat (value0 s)) (p_Sample prof)) < 2 ^ 63" by simp
    moreover have "unat (value0 s) \<le> sum_list (map (\<lambda>s. unat (value0 s)) (p_Sample prof))"
      if "s \<in> set (p_Sample prof)" for s
      using that by (simp add: member_le_sum_list)
    ultimately have "\<forall>s \<in> set (p_Sample prof). unat (value0 s) < 2 ^ 63"
      by (meson le_less_trans)
    from sum_sint_small [OF this] wt
    have "sum_list (map (\<lambda>s. sint (value0 s)) (p_Sample prof)) = int (samples_weight (samples st))"
      by simp
    with w show ?thesis
      by (simp only: sum_uint_unat flip: of_nat_add)
  qed
  with b [of "''user''"] b [of "''kernel''"] show ?thesis
    by (simp add: tot init ms)
qed

subsection \<open>A cycle that drops its one tuple\<close>

lemma scenario4_fetch:
  "fetch LittleEndian (cg_bpfMaps scenario4) key_5_42
     = ([StackTraceGet [42, 0, 0, 0]], Missing ''user'' 3)"
  by (simp add: fetch_eval scenario4_def key_5_42_def)

lemma scenario4_cycle:
  "profileLoop example_env scenario4 t =
     \<lparr>c_err = None,
      c_profiler = scenario4
        \<lparr>cg_missingStacks := (\<lambda>ty. 0)(''user'' := Suc 0),
         cg_bpfMaps := \<lparr>counts = [], stackTraces = []\<rparr>\<rparr>,
      c_profile = Some
        \<lparr>p_SampleType = [(''samples'', ''count'')], p_TimeNanos = t,
         p_DurationNanos = 10000000000, p_PeriodType = (''cpu'', ''nanoseconds''),
         p_Period = 10000000, p_Sample = [],
         p_Mapping = [(KernelMapping, kernelMapping 1)], p_Location = [], p_Function = []\<rparr>,
      c_sendErr = Some WriteRawFailed,
      c_cleanErr = None,
      c_ops = [(Counts, OpNext key_5_42), (Counts, OpDelete key_5_42)]\<rparr>"
proof -
  have d: "drained (cg_bpfMaps scenario4) = [key_5_42]"
    by (simp add: drained_def scenario4_def)
  have run: "drain example_env (cg_bpfMaps scenario4) (init_state (cg_missingStacks scenario4))
      = (None, (init_state (\<lambda>ty. 0))
           \<lparr>calls := [StackTraceGet [42, 0, 0, 0]], missingStacks := (\<lambda>ty. 0)(''user'' := Suc 0)\<rparr>)"
    by (simp add: drain_def d step_def example_byteOrder scenario4_fetch)
       (simp add: scenario4_def init_state_def)
  have c: "clean (cg_bpfMaps scenario4)
      = (None, \<lparr>counts = [], stackTraces = []\<rparr>, [(Counts, OpNext key_5_42), (Counts, OpDelete key_5_42)])"
    by (simp add: clean_def clean_map_distinct scenario4_def)
  have b: "build_profile example_env t (cg_profilingDuration scenario4)
        ((init_state (\<lambda>ty. 0))
           \<lparr>calls := [StackTraceGet [42, 0, 0, 0]], missingStacks := (\<lambda>ty. 0)(''user'' := Suc 0)\<rparr>)
      = Some \<lparr>p_SampleType = [(''samples'', ''count'')], p_TimeNanos = t,
         p_DurationNanos = 10000000000, p_PeriodType = (''cpu'', ''nanoseconds''),
         p_Period = 10000000, p_Sample = [],
         p_Mapping = [(KernelMapping, kernelMapping 1)], p_Location = [], p_Function = []\<rparr>"
    by (simp add: build_profile_def init_state_def Let_def example_env_def scenario4_def)
  have s: "sendProfile example_env scenario4 prof = Some WriteRawFailed" for prof
    by (simp add: sendProfile_def example_env_def)
  show ?thesis
    by (simp add: profileLoop_def run b c s)
qed

text \<open>
  With the increments of the two counters in place of the dropped counts the equation
  fails: in the cycle whose one tuple has the count 3 and a user stack that is gone,
  the profile has no sample, the user counter goes up by one, the kernel counter
  stays, and the drained counts add up to 3.
\<close>

theorem profile_balance_counterexample:
  "c_err (profileLoop example_env scenario4 0) = None
   \<and> cycle_samples (profileLoop example_env scenario4 0) = []
   \<and> cg_missingStacks (c_profiler (profileLoop example_env scenario4 0)) ''user''
        - cg_missingStacks scenario4 ''user'' = 1
   \<and> cg_missingStacks (c_profiler (profileLoop example_env scenario4 0)) ''kernel''
        - cg_missingStacks scenario4 ''kernel'' = 0
   \<and> sum_list (map (\<lambda>k. uint (tuple_count LittleEndian (cg_bpfMaps scenario4) k))
         (drained (cg_bpfMaps scenario4))) = 3
   \<and> sum_list (map (\<lambda>s. sint (value0 s)) (cycle_samples (profileLoop example_env scenario4 0)))
        + int (cg_missingStacks (c_profiler (profileLoop example_env scenario4 0)) ''user''
                - cg_missingStacks scenario4 ''user'')
        + int (cg_missingStacks (c_profiler (profileLoop example_env scenario4 0)) ''kernel''
                - cg_missingStacks scenario4 ''kernel'')
      \<noteq> sum_list (map (\<lambda>k. uint (tuple_count LittleEndian (cg_bpfMaps scenario4) k))
           (drained (cg_bpfMaps scenario4)))"
proof -
  have d: "drained (cg_bpfMaps scenario4) = [key_5_42]"
    by (simp add: drained_def scenario4_def)
  have t: "tuple_count LittleEndian (cg_bpfMaps scenario4) key_5_42 = 3"
    by (simp add: tuple_count_def GetValue_def Uint64_def decode_uint_def scenario4_def)
  have m: "cg_missingStacks scenario4 = (\<lambda>ty. 0)" by (simp add: scenario4_def)
  show ?thesis
    by (simp add: scenario4_cycle cycle_samples_def d t m)
qed

subsection \<open>The balance of the example cycle\<close>

lemma example_tuple_counts:
  "map (tuple_count LittleEndian example_maps) (drained example_maps) = [3, 2, 4, 1, 6]"
  unfolding example_drained
  by (simp add: tuple_count_def GetValue_def Uint64_def decode_uint_def
      example_maps_def key_5_42_def key_5_43_def key_7_42_def key_5_42_9_def key_5_42_10_def)

lemma example_dropped:
  "map (is_dropped LittleEndian example_maps ty) (drained example_maps)
     = [False, ty = ''user'', False, False, ty = ''kernel'']"
  by (auto simp: example_drained is_dropped_def example_fetch)

theorem profile_balance_witness:
  "c_profile (profileLoop example_env example_profiler 7) = Some (example_profile 7 10000000000)
   \<and> (\<forall>xs. mset (rangeSamples example_env xs) = mset xs)
   \<and> map value0 (p_Sample (example_profile 7 10000000000)) = [1, 7]
   \<and> map (dropped_count LittleEndian example_maps ''user'') (drained example_maps) = [0, 2, 0, 0, 0]
   \<and> map (dropped_count LittleEndian example_maps ''kernel'') (drained example_maps) = [0, 0, 0, 0, 6]
   \<and> map (tuple_count LittleEndian example_maps) (drained example_maps) = [3, 2, 4, 1, 6]
   \<and> cg_missingStacks (c_profiler (profileLoop example_env example_profiler 7)) ''user'' = 1
   \<and> cg_missingStacks (c_profiler (profileLoop example_env example_profiler 7)) ''kernel'' = 1"
proof -
  have prof: "c_profile (profileLoop example_env example_profiler 7)
                = Some (example_profile 7 10000000000)"
    by (simp add: example_cycle)
  have perm: "\<forall>xs. mset (rangeSamples example_env xs) = mset xs"
    by (simp add: example_env_def)
  have p: "cg_bpfMaps example_profiler = example_maps"
    "cg_missingStacks example_profiler = (\<lambda>ty. 0)"
    by (simp_all add: example_profiler_def)
  have v: "map value0 (p_Sample (example_profile 7 10000000000)) = [1, 7]"
    by (simp add: example_profile_def value0_def)
  have du: "map (dropped_count LittleEndian example_maps ''user'') (drained example_maps) = [0, 2, 0, 0, 0]"
    and dk: "map (dropped_count LittleEndian example_maps ''kernel'') (drained example_maps) = [0, 0, 0, 0, 6]"
    using example_dropped [of "''user''"] example_dropped [of "''kernel''"] example_tuple_counts
    by (simp_all add: dropped_count_def example_drained)
  from profile_balance [OF prof perm] prof perm v du dk example_tuple_counts
  show ?thesis
    by (simp add: p example_byteOrder example_cycle)
qed

section \<open>The claims about tuples with the same stack\<close>









subsection \<open>Three tuples with one stack\<close>














section \<open>The claim about the IDs of the profile\<close>

text \<open>
  Claim C4. In the profile of a cycle the location IDs are \<open>1..len\<close> in the order
  of construction, the function IDs are \<open>1..len\<close> with every kernel function before
  every user function, the mapping IDs are \<open>1..len\<close>, no ID occurs twice in its list,
  and the last mapping is the one of \<^verbatim>\<open>[kernel.kallsyms]\<close>. The mappings other than
  the kernel's come from \<^verbatim>\<open>AllMappings\<close> of the maps package, which is taken to number
  them from 1 in order.
\<close>

theorem profile_ids:
  assumes prof: "c_profile (profileLoop e p t) = Some prof"
    and mapping_ids:
      "\<forall>cs. map (\<lambda>hm. m_ID (snd hm)) (AllMappings e cs) = [1..<Suc (length (AllMappings e cs))]"
  shows "map l_ID (p_Location prof) = [1..<Suc (length (p_Location prof))]
    \<and> map (\<lambda>rf. f_ID (snd rf)) (p_Function prof) = [1..<Suc (length (p_Function prof))]
    \<and> (\<exists>ka ua. map fst (p_Function prof) = map KernelFn ka @ map UserFn ua)
    \<and> map (\<lambda>rm. m_ID (snd rm)) (p_Mapping prof) = [1..<Suc (length (p_Mapping prof))]
    \<and> distinct (map l_ID (p_Location prof))
    \<and> distinct (map (\<lambda>rf. f_ID (snd rf)) (p_Function prof))
    \<and> distinct (map (\<lambda>rm. m_ID (snd rm)) (p_Mapping prof))
    \<and> p_Mapping prof \<noteq> []
    \<and> last (p_Mapping prof) = (KernelMapping, kernelMapping (length (p_Mapping prof)))
    \<and> m_File (snd (last (p_Mapping prof))) = ''[kernel.kallsyms]''"
proof -
  from profileLoop_Some [OF prof] obtain st where
    run: "for_each (step e (cg_bpfMaps p)) (init_state (cg_missingStacks p)) (drained (cg_bpfMaps p))
          = (None, st)"
    and build: "build_profile e t (cg_profilingDuration p) st = Some prof"
    by (auto simp: drain_def)
  have "ids_ok (init_state (cg_missingStacks p))" by (simp add: ids_ok_def init_state_def)
  from run_ids_ok [OF run this] have "map l_ID (locations st) = map Suc [0..<length (locations st)]"
    by (simp add: ids_ok_def)
  moreover note parts = build_profile_parts [OF build]
  moreover from parts(2) have "length (p_Location prof) = length (locations st)"
    by (metis length_map)
  ultimately have loc: "map l_ID (p_Location prof) = [1..<Suc (length (p_Location prof))]"
    by (simp add: map_Suc_upt del: upt_Suc)
  have fn: "map (\<lambda>rf. f_ID (snd rf)) (p_Function prof) = [1..<Suc (length (p_Function prof))]"
    using parts(5) by (simp add: map_Suc_upt del: upt_Suc)
  let ?am = "AllMappings e (mapping_calls (calls st))"
  from mapping_ids have am: "map (\<lambda>hm. m_ID (snd hm)) ?am = [1..<Suc (length ?am)]" by blast
  have mp: "map (\<lambda>rm. m_ID (snd rm)) (p_Mapping prof) = [1..<Suc (length (p_Mapping prof))]"
    using am by (simp add: parts(3) comp_def kernelMapping_def)
  have lst: "p_Mapping prof \<noteq> []"
    "last (p_Mapping prof) = (KernelMapping, kernelMapping (length (p_Mapping prof)))"
    by (simp_all add: parts(3))
  then have kfile: "m_File (snd (last (p_Mapping prof))) = ''[kernel.kallsyms]''"
    by (simp add: kernelMapping_def)
  have d: "distinct (map l_ID (p_Location prof))"
    "distinct (map (\<lambda>rf. f_ID (snd rf)) (p_Function prof))"
    "distinct (map (\<lambda>rm. m_ID (snd rm)) (p_Mapping prof))"
    by (simp_all only: loc fn mp distinct_upt)
  from loc fn parts(4) mp d lst kfile show ?thesis by blast
qed

theorem profile_ids_witness:
  "c_profile (profileLoop example_env example_profiler 7) = Some (example_profile 7 10000000000)
   \<and> (\<forall>cs. map (\<lambda>hm. m_ID (snd hm)) (AllMappings example_env cs)
             = [1..<Suc (length (AllMappings example_env cs))])
   \<and> map l_ID (p_Location (example_profile 7 10000000000)) = [1, 2]
   \<and> map (\<lambda>rf. f_ID (snd rf)) (p_Function (example_profile 7 10000000000)) = [1]
   \<and> map (\<lambda>rm. m_ID (snd rm)) (p_Mapping (example_profile 7 10000000000)) = [1, 2]
   \<and> last (p_Mapping (example_profile 7 10000000000)) = (KernelMapping, kernelMapping 2)"
proof -
  have prof: "c_profile (profileLoop example_env example_profiler 7)
                = Some (example_profile 7 10000000000)"
    by (simp add: example_cycle)
  have ids: "\<forall>cs. map (\<lambda>hm. m_ID (snd hm)) (AllMappings example_env cs)
             = [1..<Suc (length (AllMappings example_env cs))]"
    by (simp add: example_env_def)
  from profile_ids [OF prof ids] prof ids show ?thesis
    by (simp add: example_profile_def kernelMapping_def)
qed

end
